theory Spec2Isabelle
  imports Main
begin

section \<open>Data model (types.ts)\<close>

text \<open>
  A model of the field controller of \<open>FieldCtrl.ts\<close>. That file holds two versions of the
  class one after the other; the model follows the first one (lines 1 to 673, with the
  \<open>any\<close> listeners and \<open>_validate\<close>).

  Field values are JavaScript values. Primitives are compared by value and objects by
  identity, so an object is represented by its identity. Counters are JavaScript numbers;
  they are modelled as unbounded integers (exact for every count below 2^53).

  Callbacks are modelled by what they are for the field: a check function is a function
  from what it can read of the field to its outcome, and a listener is a number whose
  calls are recorded; neither acts on the field while it runs. Arrays of rules and of
  custom messages hold objects only, as their types say.
\<close>

datatype jsval = JUndefined | JNull | JBool bool | JNumber int | JString string | JObject nat

datatype FieldMessageType = TError | TWarning | TSuccess | TInfo

datatype ValidationEventType = Touch | Change | Demand

datatype FieldParam = PValue | PTouched | PChanged | PError | PWarning | PMessages

datatype FieldListenerParam = Param FieldParam | Any

record FieldMessage =
  message :: "string option"
  type :: "FieldMessageType option"

text \<open>\<open>FieldParams\<close>: what a check function can read from the controller it is given.\<close>

record FieldParams =
  "value" :: jsval
  touched :: int
  changed :: int
  error :: bool
  warning :: bool
  messages :: "FieldMessage list option"

text \<open>
  A check function (\<open>FieldValidate\<close>) returns a boolean, throws, or returns a promise
  that is later fulfilled with a boolean or rejected.
\<close>

datatype promise_state = Fulfilled bool | Rejected

datatype check_result = Returns bool | Throws | Promise promise_state

type_synonym FieldValidate = "FieldParams \<Rightarrow> check_result"

record FieldValidationRule = FieldMessage +
  validate :: "FieldValidate option"
  typeIfPassed :: "FieldMessageType option"
  validateOn :: "ValidationEventType option"

text \<open>
  \<open>FieldRequired = boolean | string | FieldValidationRule\<close>. A rule object carries its
  identity (\<open>===\<close> on objects compares identities).
\<close>

datatype FieldRequired = ReqBool bool | ReqString string | ReqRule nat FieldValidationRule

text \<open>\<open>cfg_validateOn\<close> is the field \<open>validateOn\<close> of \<open>ValidationOptions\<close>.\<close>

record ValidationOptions =
  cfg_validateOn :: "ValidationEventType option"
  requiredValidate :: "FieldValidate option"
  requiredMessage :: "string option"

record FieldValidation = ValidationOptions +
  rules :: "FieldValidationRule list option"
  required :: "FieldRequired option"

text \<open>The part of the parent entity that a field reads.\<close>

record EntityCtrl =
  validationOptions :: "ValidationOptions option"

datatype hold_validation = HoldValidation bool | HoldEvents "ValidationEventType list"

datatype hold_listeners = HoldListeners bool | HoldParams "FieldParam list"

text \<open>
  Listener storage of one parameter: \<open>null\<close>, a plain listener, or a \<open>Set\<close> (in insertion
  order). Listeners are identified by a number; calling one is recorded in \<open>calls\<close>.
\<close>

datatype listeners = NoListeners | Plain nat | SetOf "nat list"

text \<open>The previous value handed to \<open>_triggerListeners\<close>.\<close>

datatype snapshot =
    SValue jsval
  | SNumber int
  | SBool bool
  | SMessages "(nat \<times> FieldMessage list) option"
  | SNothing

section \<open>The field controller (FieldCtrl.ts)\<close>

text \<open>
  Protected members \<open>_x\<close> of the class are the fields \<open>p_x\<close>. The messages array is
  a fresh array after each full recompute; it is stored with its identity, taken from the
  counter \<open>allocated\<close>, because listeners are triggered on identity (\<open>Object.is\<close>).
  \<open>calls\<close> records every listener invocation \<open>listener(this, param, prev)\<close>.
\<close>

record FieldCtrl =
  field_key :: string
  parent :: "EntityCtrl option"
  defaultValue :: jsval
  holdValidation :: hold_validation
  holdListeners :: hold_listeners
  p_value :: jsval
  p_touched :: int
  p_changed :: int
  p_error :: bool
  p_warning :: bool
  p_messages :: "(nat \<times> FieldMessage list) option"
  p_validation :: "FieldValidation option"
  p_requiredMessage :: "FieldMessage option"
  p_rulesMessages :: "FieldMessage option list option"
  p_customMessages :: "FieldMessage list option"
  p_errorOverride :: "bool option"
  p_warningOverride :: "bool option"
  listeners_any :: listeners
  listeners_value :: listeners
  listeners_touched :: listeners
  listeners_changed :: listeners
  listeners_error :: listeners
  listeners_warning :: listeners
  listeners_messages :: listeners
  allocated :: nat
  calls :: "(nat \<times> FieldListenerParam \<times> snapshot) list"

definition VALIDATION_DEFAULTS_validateOn :: ValidationEventType where
  "VALIDATION_DEFAULTS_validateOn = Demand"

definition VALIDATION_DEFAULTS_requiredValidate :: FieldValidate where
  "VALIDATION_DEFAULTS_requiredValidate fc =
     Returns (value fc \<noteq> JUndefined \<and> value fc \<noteq> JNull \<and> value fc \<noteq> JString [] \<and> value fc \<noteq> JNumber 0)"

definition VALIDATION_DEFAULTS_requiredMessage :: string where
  "VALIDATION_DEFAULTS_requiredMessage = ''Required field''"

definition new_FieldCtrl :: "string \<Rightarrow> EntityCtrl option \<Rightarrow> jsval \<Rightarrow> FieldCtrl" where
  "new_FieldCtrl field parent' defaultValue' =
     \<lparr> field_key = field, parent = parent', defaultValue = defaultValue',
       holdValidation = HoldValidation False, holdListeners = HoldListeners False,
       p_value = defaultValue', p_touched = 0, p_changed = 0,
       p_error = False, p_warning = False, p_messages = None,
       p_validation = None, p_requiredMessage = None, p_rulesMessages = None,
       p_customMessages = None, p_errorOverride = None, p_warningOverride = None,
       listeners_any = NoListeners, listeners_value = NoListeners,
       listeners_touched = NoListeners, listeners_changed = NoListeners,
       listeners_error = NoListeners, listeners_warning = NoListeners,
       listeners_messages = NoListeners,
       allocated = 0, calls = [] \<rparr>"

text \<open>The public getters.\<close>

definition get_messages :: "FieldCtrl \<Rightarrow> FieldMessage list option" where
  "get_messages s = map_option snd (p_messages s)"

definition params :: "FieldCtrl \<Rightarrow> FieldParams" where
  "params s = \<lparr> value = p_value s, touched = p_touched s, changed = p_changed s,
                 error = p_error s, warning = p_warning s, messages = get_messages s \<rparr>"

subsection \<open>Listeners\<close>

definition get_listeners :: "FieldListenerParam \<Rightarrow> FieldCtrl \<Rightarrow> listeners" where
  "get_listeners param s =
     (case param of
        Any \<Rightarrow> listeners_any s
      | Param PValue \<Rightarrow> listeners_value s
      | Param PTouched \<Rightarrow> listeners_touched s
      | Param PChanged \<Rightarrow> listeners_changed s
      | Param PError \<Rightarrow> listeners_error s
      | Param PWarning \<Rightarrow> listeners_warning s
      | Param PMessages \<Rightarrow> listeners_messages s)"

definition set_listeners :: "FieldListenerParam \<Rightarrow> listeners \<Rightarrow> FieldCtrl \<Rightarrow> FieldCtrl" where
  "set_listeners param ls s =
     (case param of
        Any \<Rightarrow> s\<lparr>listeners_any := ls\<rparr>
      | Param PValue \<Rightarrow> s\<lparr>listeners_value := ls\<rparr>
      | Param PTouched \<Rightarrow> s\<lparr>listeners_touched := ls\<rparr>
      | Param PChanged \<Rightarrow> s\<lparr>listeners_changed := ls\<rparr>
      | Param PError \<Rightarrow> s\<lparr>listeners_error := ls\<rparr>
      | Param PWarning \<Rightarrow> s\<lparr>listeners_warning := ls\<rparr>
      | Param PMessages \<Rightarrow> s\<lparr>listeners_messages := ls\<rparr>)"

definition addListener :: "FieldListenerParam \<Rightarrow> nat \<Rightarrow> FieldCtrl \<Rightarrow> FieldCtrl" where
  "addListener param l s =
     (case get_listeners param s of
        NoListeners \<Rightarrow> set_listeners param (Plain l) s
      | SetOf ls \<Rightarrow> set_listeners param (SetOf (if l \<in> set ls then ls else ls @ [l])) s
      | Plain l0 \<Rightarrow> set_listeners param (SetOf (if l = l0 then [l0] else [l0, l])) s)"

definition removeListener :: "FieldListenerParam \<Rightarrow> nat \<Rightarrow> FieldCtrl \<Rightarrow> bool \<times> FieldCtrl" where
  "removeListener param l s =
     (case get_listeners param s of
        NoListeners \<Rightarrow> (False, s)
      | SetOf ls \<Rightarrow>
          (let deleted = (l \<in> set ls); ls' = removeAll l ls
           in if deleted \<and> length ls' < 2
              then (deleted, set_listeners param (case ls' of [] \<Rightarrow> NoListeners | l1 # _ \<Rightarrow> Plain l1) s)
              else (deleted, set_listeners param (SetOf ls') s))
      | Plain l0 \<Rightarrow> if l0 = l then (True, set_listeners param NoListeners s) else (False, s))"

text \<open>\<open>this[`_${param}`]\<close> for the six parameters.\<close>

definition current :: "FieldParam \<Rightarrow> FieldCtrl \<Rightarrow> snapshot" where
  "current param s =
     (case param of
        PValue \<Rightarrow> SValue (p_value s)
      | PTouched \<Rightarrow> SNumber (p_touched s)
      | PChanged \<Rightarrow> SNumber (p_changed s)
      | PError \<Rightarrow> SBool (p_error s)
      | PWarning \<Rightarrow> SBool (p_warning s)
      | PMessages \<Rightarrow> SMessages (p_messages s))"

text \<open>\<open>Object.is\<close>: arrays are the same when they are the same object.\<close>

fun object_is :: "snapshot \<Rightarrow> snapshot \<Rightarrow> bool" where
  "object_is (SMessages a) (SMessages b) = (map_option fst a = map_option fst b)"
| "object_is a b = (a = b)"

definition holdParamListeners :: "hold_listeners \<Rightarrow> FieldListenerParam \<Rightarrow> bool" where
  "holdParamListeners h param =
     (case h of
        HoldListeners b \<Rightarrow> b
      | HoldParams ps \<Rightarrow> (case param of Param p \<Rightarrow> p \<in> set ps | Any \<Rightarrow> False))"

definition invoke :: "listeners \<Rightarrow> FieldListenerParam \<Rightarrow> snapshot \<Rightarrow> FieldCtrl \<Rightarrow> FieldCtrl" where
  "invoke paramListeners param prev s =
     (case paramListeners of
        NoListeners \<Rightarrow> s
      | Plain l \<Rightarrow> s\<lparr>calls := calls s @ [(l, param, prev)]\<rparr>
      | SetOf ls \<Rightarrow> s\<lparr>calls := calls s @ map (\<lambda>l. (l, param, prev)) ls\<rparr>)"

definition triggerListeners :: "FieldListenerParam \<Rightarrow> snapshot \<Rightarrow> FieldCtrl \<Rightarrow> bool \<times> FieldCtrl" where
  "triggerListeners param prev s =
     (if (case param of Param p \<Rightarrow> object_is (current p s) prev | Any \<Rightarrow> False) then (False, s)
      else if get_listeners param s = NoListeners then (True, s)
      else if holdParamListeners (holdListeners s) param then (True, s)
      else (True, invoke (get_listeners param s) param prev s))"

subsection \<open>Message composition\<close>

datatype only = OnlyError | OnlyWarning

text \<open>
  \<open>processInternalMessage\<close>, the closure of \<open>_updateMessages\<close>; \<open>eo\<close> and \<open>wo\<close> are the
  overrides read at the start of \<open>_updateMessages\<close>.
\<close>

definition processInternalMessage ::
  "only option \<Rightarrow> bool option \<Rightarrow> bool option \<Rightarrow> FieldCtrl \<Rightarrow> FieldMessage \<Rightarrow> FieldCtrl" where
  "processInternalMessage only' eo wo s m =
     (let s1 = (if only' = None
                then (case p_messages s of
                        None \<Rightarrow> s\<lparr>p_messages := Some (allocated s, [m]), allocated := Suc (allocated s)\<rparr>
                      | Some (i, ms) \<Rightarrow> s\<lparr>p_messages := Some (i, ms @ [m])\<rparr>)
                else s);
          s2 = (if only' \<noteq> Some OnlyWarning
                then s1\<lparr>p_error := (case eo of Some b \<Rightarrow> b
                                     | None \<Rightarrow> p_error s1 \<or> type m = Some TError)\<rparr>
                else s1)
      in (if only' \<noteq> Some OnlyError
          then s2\<lparr>p_warning := (case wo of Some b \<Rightarrow> b
                                 | None \<Rightarrow> p_warning s2 \<or> type m = Some TWarning)\<rparr>
          else s2))"

text \<open>The three sources in the order in which \<open>_updateMessages\<close> visits them.\<close>

definition sources :: "FieldCtrl \<Rightarrow> FieldMessage list" where
  "sources s =
     (case p_requiredMessage s of None \<Rightarrow> [] | Some m \<Rightarrow> [m])
     @ (case p_rulesMessages s of None \<Rightarrow> [] | Some rm \<Rightarrow> List.map_filter id rm)
     @ (case p_customMessages s of None \<Rightarrow> [] | Some cm \<Rightarrow> cm)"

text \<open>
  \<open>_updateMessages\<close> up to its listener calls: the reset of the list and of the flags, and
  the visit of the three sources.
\<close>

definition composeMessages :: "only option \<Rightarrow> FieldCtrl \<Rightarrow> FieldCtrl" where
  "composeMessages only' s =
     (let eo = p_errorOverride s; wo = p_warningOverride s;
          s1 = (if only' = None then s\<lparr>p_messages := None\<rparr> else s);
          s2 = (if only' \<noteq> Some OnlyWarning
                then s1\<lparr>p_error := (case eo of Some b \<Rightarrow> b | None \<Rightarrow> False)\<rparr> else s1);
          s3 = (if only' \<noteq> Some OnlyError
                then s2\<lparr>p_warning := (case wo of Some b \<Rightarrow> b | None \<Rightarrow> False)\<rparr> else s2);
          s4 = (case p_requiredMessage s of
                  None \<Rightarrow> s3 | Some m \<Rightarrow> processInternalMessage only' eo wo s3 m);
          s5 = (case p_rulesMessages s of
                  None \<Rightarrow> s4
                | Some rm \<Rightarrow>
                    foldl (\<lambda>t slot. case slot of None \<Rightarrow> t
                                     | Some m \<Rightarrow> processInternalMessage only' eo wo t m) s4 rm)
      in (case p_customMessages s of
            None \<Rightarrow> s5
          | Some cm \<Rightarrow> foldl (processInternalMessage only' eo wo) s5 cm))"

definition updateMessages :: "only option \<Rightarrow> bool \<Rightarrow> FieldCtrl \<Rightarrow> FieldCtrl" where
  "updateMessages only' skipListeners s =
     (let prevError = p_error s; prevWarning = p_warning s; prevMessages = p_messages s;
          s6 = composeMessages only' s
      in if skipListeners then s6
         else
           (let e = triggerListeners (Param PError) (SBool prevError) s6;
                w = triggerListeners (Param PWarning) (SBool prevWarning) (snd e);
                m = triggerListeners (Param PMessages) (SMessages prevMessages) (snd w)
            in if fst e \<or> fst w \<or> fst m
               then snd (triggerListeners Any SNothing (snd m)) else snd m))"

subsection \<open>Helpers of utils.ts and sparse arrays\<close>

text \<open>
  Modelled from the spec: \<open>shallowEqual\<close> of \<open>utils.ts\<close>, which is not among the
  sources. The spec calls it shallow field-by-field equality of the stored message of a
  slot (possibly absent) and a new message.
\<close>

definition shallowEqual :: "FieldMessage option \<Rightarrow> FieldMessage \<Rightarrow> bool" where
  "shallowEqual stored m =
     (case stored of None \<Rightarrow> False
      | Some m0 \<Rightarrow> message m0 = message m \<and> type m0 = type m)"

text \<open>
  Modelled from the spec: \<open>everyTruthy\<close> of \<open>utils.ts\<close>, which is not among the
  sources: the logical AND of all individual outcomes.
\<close>

definition everyTruthy :: "bool list \<Rightarrow> bool" where
  "everyTruthy bools = list_all (\<lambda>b. b) bools"

text \<open>
  \<open>_rulesMessages\<close> is a JavaScript array with holes: reading outside it gives
  \<open>undefined\<close>, writing beyond its end extends it with holes, \<open>delete\<close> leaves a hole.
\<close>

definition arr_get :: "'a option list \<Rightarrow> nat \<Rightarrow> 'a option" where
  "arr_get a i = (if i < length a then a ! i else None)"

definition arr_set :: "'a option list \<Rightarrow> nat \<Rightarrow> 'a \<Rightarrow> 'a option list" where
  "arr_set a i x =
     (if i < length a then a[i := Some x]
      else a @ replicate (i - length a) None @ [Some x])"

definition arr_delete :: "'a option list \<Rightarrow> nat \<Rightarrow> 'a option list" where
  "arr_delete a i = (if i < length a then a[i := None] else a)"

subsection \<open>Validation\<close>

text \<open>\<open>_getValidationDefault(param)\<close>, for each of the three parameters.\<close>

definition parentOptions :: "FieldCtrl \<Rightarrow> ValidationOptions option" where
  "parentOptions s = (case parent s of None \<Rightarrow> None | Some e \<Rightarrow> validationOptions e)"

definition getValidationDefault_validateOn :: "FieldCtrl \<Rightarrow> ValidationEventType" where
  "getValidationDefault_validateOn s =
     (case parentOptions s of
        None \<Rightarrow> VALIDATION_DEFAULTS_validateOn
      | Some vo \<Rightarrow> (case cfg_validateOn vo of
                      None \<Rightarrow> VALIDATION_DEFAULTS_validateOn | Some e \<Rightarrow> e))"

definition getValidationDefault_requiredValidate :: "FieldCtrl \<Rightarrow> FieldValidate" where
  "getValidationDefault_requiredValidate s =
     (case parentOptions s of
        None \<Rightarrow> VALIDATION_DEFAULTS_requiredValidate
      | Some vo \<Rightarrow> (case requiredValidate vo of
                      None \<Rightarrow> VALIDATION_DEFAULTS_requiredValidate | Some f \<Rightarrow> f))"

definition getValidationDefault_requiredMessage :: "FieldCtrl \<Rightarrow> string" where
  "getValidationDefault_requiredMessage s =
     (case parentOptions s of
        None \<Rightarrow> VALIDATION_DEFAULTS_requiredMessage
      | Some vo \<Rightarrow> (case requiredMessage vo of
                      None \<Rightarrow> VALIDATION_DEFAULTS_requiredMessage
                    | Some m \<Rightarrow> if m = [] then VALIDATION_DEFAULTS_requiredMessage else m))"

definition holdForSure :: "hold_validation \<Rightarrow> ValidationEventType option \<Rightarrow> bool" where
  "holdForSure h eventType =
     (case h of
        HoldValidation b \<Rightarrow> b
      | HoldEvents es \<Rightarrow> (case eventType of None \<Rightarrow> False | Some e \<Rightarrow> e \<in> set es))"

definition ruleValidateOn :: "FieldCtrl \<Rightarrow> FieldValidation \<Rightarrow> FieldValidationRule \<Rightarrow> ValidationEventType" where
  "ruleValidateOn s validation rule =
     (case validateOn rule of
        Some e \<Rightarrow> e
      | None \<Rightarrow> (case cfg_validateOn validation of
                    Some e \<Rightarrow> e
                  | None \<Rightarrow> getValidationDefault_validateOn s))"

definition shouldValidate ::
  "ValidationEventType option \<Rightarrow> hold_validation \<Rightarrow> ValidationEventType \<Rightarrow> bool" where
  "shouldValidate eventType h on =
     (case eventType of
        Some e \<Rightarrow> on = e \<or> (e = Touch \<and> on = Change)
      | None \<Rightarrow> (case h of HoldEvents es \<Rightarrow> on \<notin> set es | HoldValidation _ \<Rightarrow> True))"

text \<open>
  The \<open>try\<close> block of \<open>validateRule\<close>: \<open>passedMaybePromise\<close> starts as \<open>false\<close> and keeps
  that value when the rule has no check or the check throws.
\<close>

datatype maybe_promise = Plain_bool bool | A_promise promise_state

definition runCheck :: "FieldValidationRule \<Rightarrow> FieldParams \<Rightarrow> maybe_promise" where
  "runCheck rule fc =
     (case validate rule of
        None \<Rightarrow> Plain_bool False
      | Some f \<Rightarrow> (case f fc of
                     Returns b \<Rightarrow> Plain_bool b
                   | Throws \<Rightarrow> Plain_bool False
                   | Promise p \<Rightarrow> A_promise p))"

datatype slot = Required | Index nat

definition rulesMessages :: "FieldCtrl \<Rightarrow> FieldMessage option list" where
  "rulesMessages s = (case p_rulesMessages s of None \<Rightarrow> [] | Some a \<Rightarrow> a)"

text \<open>
  \<open>processPassed\<close>, the closure of \<open>validateRule\<close> for one rule and slot. It works on the
  variable \<open>needUpdate\<close> of the enclosing \<open>_validate\<close> call and on the field; the local
  \<open>rulesMessages\<close> is the array of \<open>this._rulesMessages\<close>. Returns \<open>Boolean(passed)\<close>.
\<close>

definition processPassed ::
  "FieldValidationRule \<Rightarrow> slot \<Rightarrow> bool \<Rightarrow> bool \<times> FieldCtrl \<Rightarrow> bool \<times> bool \<times> FieldCtrl" where
  "processPassed rule index passed st =
     (let needUpdate = fst st; s = snd st;
          msgType = (if passed then typeIfPassed rule
                     else (case type rule of Some t \<Rightarrow> Some t | None \<Rightarrow> Some TError))
      in case msgType of
           Some t \<Rightarrow>
             (let m = \<lparr>message = message rule, type = Some t\<rparr>
              in case index of
                   Required \<Rightarrow>
                     if \<not> shallowEqual (p_requiredMessage s) m
                     then (passed, True, s\<lparr>p_requiredMessage := Some m\<rparr>)
                     else (passed, needUpdate, s)
                 | Index i \<Rightarrow>
                     if \<not> shallowEqual (arr_get (rulesMessages s) i) m
                     then (passed, True, s\<lparr>p_rulesMessages := Some (arr_set (rulesMessages s) i m)\<rparr>)
                     else (passed, needUpdate, s))
         | None \<Rightarrow>
             (case index of
                Required \<Rightarrow>
                  if p_requiredMessage s \<noteq> None
                  then (passed, True, s\<lparr>p_requiredMessage := None\<rparr>)
                  else (passed, needUpdate, s)
              | Index i \<Rightarrow>
                  if arr_get (rulesMessages s) i \<noteq> None
                  then (passed, True, s\<lparr>p_rulesMessages := Some (arr_delete (rulesMessages s) i)\<rparr>)
                  else (passed, needUpdate, s)))"

text \<open>
  An entry of \<open>results\<close>: a boolean, or the promise
  \<open>passedMaybePromise.catch(() => false).then(processPassed)\<close>, which keeps the rule, the
  slot and the eventual state of the check's promise. Each entry remembers the slot of
  the rule that pushed it.
\<close>

datatype result = Done slot bool | Later slot FieldValidationRule promise_state

record validation_run =
  fc :: FieldCtrl
  promisified :: bool
  needUpdate :: bool
  results :: "result list"

definition validateRule ::
  "ValidationEventType option \<Rightarrow> FieldValidation \<Rightarrow> validation_run \<Rightarrow> slot \<times> FieldValidationRule
     \<Rightarrow> validation_run" where
  "validateRule eventType validation r w =
     (let index = fst w; rule = snd w; s = fc r
      in if \<not> shouldValidate eventType (holdValidation s) (ruleValidateOn s validation rule) then r
         else (case runCheck rule (params s) of
                 A_promise p \<Rightarrow>
                   r\<lparr>promisified := True, results := results r @ [Later index rule p]\<rparr>
               | Plain_bool passed \<Rightarrow>
                   (let res = processPassed rule index passed (needUpdate r, s)
                    in r\<lparr>fc := snd (snd res), needUpdate := fst (snd res),
                         results := results r @ [Done index (fst res)]\<rparr>)))"

text \<open>The rule built for the required check, if \<open>validation.required\<close> is truthy.\<close>

definition requiredRule :: "FieldCtrl \<Rightarrow> FieldValidation \<Rightarrow> FieldValidationRule option" where
  "requiredRule s validation =
     (let fresh = (\<lambda>msg. \<lparr>message = Some msg, type = Some TError,
                          validate = Some (case requiredValidate validation of
                                             Some f \<Rightarrow> f
                                           | None \<Rightarrow> getValidationDefault_requiredValidate s),
                          typeIfPassed = None, validateOn = None\<rparr>)
      in case required validation of
           None \<Rightarrow> None
         | Some (ReqBool b) \<Rightarrow>
             if b then Some (fresh (getValidationDefault_requiredMessage s)) else None
         | Some (ReqString str) \<Rightarrow> if str = [] then None else Some (fresh str)
         | Some (ReqRule _ rule) \<Rightarrow> Some rule)"

text \<open>The calls of \<open>validateRule\<close> that \<open>_validate\<close> makes, in order.\<close>

definition workList :: "FieldCtrl \<Rightarrow> FieldValidation \<Rightarrow> (slot \<times> FieldValidationRule) list" where
  "workList s validation =
     (case requiredRule s validation of None \<Rightarrow> [] | Some rule \<Rightarrow> [(Required, rule)])
     @ (case rules validation of
          None \<Rightarrow> []
        | Some rs \<Rightarrow> zip (map Index [0..<length rs]) rs)"

text \<open>
  What \<open>_validate\<close> returns: a boolean, or the promise
  \<open>Promise.all(results).then(processBools)\<close>, where \<open>update\<close> says whether \<open>processBools\<close>
  is the function that calls \<open>_updateMessages\<close> (chosen from \<open>needUpdate\<close> when \<open>_validate\<close>
  returns).
\<close>

record pending =
  tasks :: "result list"
  update :: bool

datatype outcome = Sync bool | Async pending

definition done_value :: "result \<Rightarrow> bool" where
  "done_value x = (case x of Done _ b \<Rightarrow> b | Later _ _ _ \<Rightarrow> True)"

text \<open>
  \<open>_validate\<close> up to its return statements: \<open>None\<close> when it returns early (no
  configuration, or validation held), otherwise the variables after all calls of
  \<open>validateRule\<close>.
\<close>

definition rulesRun :: "ValidationEventType option \<Rightarrow> FieldCtrl \<Rightarrow> validation_run option" where
  "rulesRun eventType s =
     (case p_validation s of
        None \<Rightarrow> None
      | Some validation \<Rightarrow>
          if holdForSure (holdValidation s) eventType then None
          else
            (let s1 = s\<lparr>p_rulesMessages := Some (rulesMessages s)\<rparr>
             in Some (foldl (validateRule eventType validation)
                        \<lparr>fc = s1, promisified = False, needUpdate = False, results = []\<rparr>
                        (workList s1 validation))))"

definition p_validate ::
  "ValidationEventType option \<Rightarrow> bool \<Rightarrow> FieldCtrl \<Rightarrow> outcome \<times> FieldCtrl" where
  "p_validate eventType skipSyncListeners s =
     (case rulesRun eventType s of
        None \<Rightarrow> (Sync True, s)
      | Some r \<Rightarrow>
          if promisified r
          then (Async \<lparr>tasks = results r, update = needUpdate r\<rparr>, fc r)
          else (Sync (everyTruthy (map done_value (results r))),
                if needUpdate r then updateMessages None skipSyncListeners (fc r)
                else fc r))"

definition validate_fc :: "ValidationEventType option \<Rightarrow> FieldCtrl \<Rightarrow> outcome \<times> FieldCtrl" where
  "validate_fc eventType s = p_validate eventType False s"

text \<open>
  The settling of the promise returned by \<open>_validate\<close>, when no other operation on the
  field comes in between: each pending check settles (a rejection becomes \<open>false\<close>) and
  runs \<open>processPassed\<close>; then \<open>processBools\<close> runs. The checks write to different slots, so
  the order in which they settle does not matter here; they are taken in rule order.
\<close>

definition settle_task :: "bool list \<times> FieldCtrl \<Rightarrow> result \<Rightarrow> bool list \<times> FieldCtrl" where
  "settle_task acc x =
     (case x of
        Done _ b \<Rightarrow> (fst acc @ [b], snd acc)
      | Later index rule p \<Rightarrow>
          (let passed = (case p of Fulfilled b \<Rightarrow> b | Rejected \<Rightarrow> False);
               res = processPassed rule index passed (True, snd acc)
           in (fst acc @ [fst res], snd (snd res))))"

definition settle :: "pending \<Rightarrow> FieldCtrl \<Rightarrow> bool \<times> FieldCtrl" where
  "settle p s =
     (let acc = foldl settle_task ([], s) (tasks p)
      in (everyTruthy (fst acc),
          if update p then updateMessages None False (snd acc) else snd acc))"

text \<open>\<open>await fc.validate(eventType)\<close>.\<close>

definition validate_await :: "ValidationEventType option \<Rightarrow> FieldCtrl \<Rightarrow> bool \<times> FieldCtrl" where
  "validate_await eventType s =
     (case validate_fc eventType s of
        (Sync b, s') \<Rightarrow> (b, s')
      | (Async p, s') \<Rightarrow> settle p s')"

subsection \<open>The public operations\<close>

definition notify :: "FieldListenerParam \<Rightarrow> snapshot \<Rightarrow> FieldCtrl \<Rightarrow> FieldCtrl" where
  "notify param prev s = snd (triggerListeners param prev s)"

definition pending_of :: "outcome \<Rightarrow> pending option" where
  "pending_of out = (case out of Sync _ \<Rightarrow> None | Async p \<Rightarrow> Some p)"

text \<open>
  \<open>set value(v)\<close> and \<open>touch(value)\<close> drop what \<open>_validate\<close> returns; the second component
  is the validation they leave pending, if any.
\<close>

definition set_value :: "jsval \<Rightarrow> FieldCtrl \<Rightarrow> FieldCtrl \<times> pending option" where
  "set_value v s =
     (let res = p_validate (Some Change) True (s\<lparr>p_value := v, p_changed := p_changed s + 1\<rparr>);
          s1 = notify (Param PValue) (SValue (p_value s)) (snd res);
          s2 = notify (Param PChanged) (SNumber (p_changed s)) s1;
          s3 = notify (Param PError) (SBool (p_error s)) s2;
          s4 = notify (Param PWarning) (SBool (p_warning s)) s3;
          s5 = notify (Param PMessages) (SMessages (p_messages s)) s4
      in (notify Any SNothing s5, pending_of (fst res)))"

definition touch :: "jsval \<Rightarrow> FieldCtrl \<Rightarrow> FieldCtrl \<times> pending option" where
  "touch v s =
     (let res = p_validate (Some Touch) True
                  (s\<lparr>p_value := v, p_touched := p_touched s + 1, p_changed := p_changed s + 1\<rparr>);
          s1 = notify (Param PValue) (SValue (p_value s)) (snd res);
          s2 = notify (Param PTouched) (SNumber (p_touched s)) s1;
          s3 = notify (Param PChanged) (SNumber (p_changed s)) s2;
          s4 = notify (Param PError) (SBool (p_error s)) s3;
          s5 = notify (Param PWarning) (SBool (p_warning s)) s4;
          s6 = notify (Param PMessages) (SMessages (p_messages s)) s5
      in (notify Any SNothing s6, pending_of (fst res)))"

definition set_touched :: "int \<Rightarrow> FieldCtrl \<Rightarrow> FieldCtrl" where
  "set_touched t s = notify (Param PTouched) (SNumber (p_touched s)) (s\<lparr>p_touched := t\<rparr>)"

definition set_changed :: "int \<Rightarrow> FieldCtrl \<Rightarrow> FieldCtrl" where
  "set_changed c s = notify (Param PChanged) (SNumber (p_changed s)) (s\<lparr>p_changed := c\<rparr>)"

definition set_errorOverride :: "bool option \<Rightarrow> FieldCtrl \<Rightarrow> FieldCtrl" where
  "set_errorOverride errorOverride s =
     (if p_errorOverride s = errorOverride then s
      else (case errorOverride of
              None \<Rightarrow> updateMessages (Some OnlyError) False (s\<lparr>p_errorOverride := None\<rparr>)
            | Some b \<Rightarrow>
                notify (Param PError) (SBool (p_error s))
                  (s\<lparr>p_errorOverride := Some b, p_error := b\<rparr>)))"

definition set_warningOverride :: "bool option \<Rightarrow> FieldCtrl \<Rightarrow> FieldCtrl" where
  "set_warningOverride warningOverride s =
     (if p_warningOverride s = warningOverride then s
      else (case warningOverride of
              None \<Rightarrow> updateMessages (Some OnlyWarning) False (s\<lparr>p_warningOverride := None\<rparr>)
            | Some b \<Rightarrow>
                notify (Param PWarning) (SBool (p_warning s))
                  (s\<lparr>p_warningOverride := Some b, p_warning := b\<rparr>)))"

definition set_customMessages :: "FieldMessage list option \<Rightarrow> FieldCtrl \<Rightarrow> FieldCtrl" where
  "set_customMessages ms s = updateMessages None False (s\<lparr>p_customMessages := ms\<rparr>)"

definition clearValidated :: "FieldCtrl \<Rightarrow> FieldCtrl" where
  "clearValidated s =
     (if p_requiredMessage s = None \<and> p_rulesMessages s = None then s
      else updateMessages None False (s\<lparr>p_requiredMessage := None, p_rulesMessages := None\<rparr>))"

definition clear :: "FieldCtrl \<Rightarrow> FieldCtrl" where
  "clear s =
     updateMessages None False
       (s\<lparr>p_requiredMessage := None, p_rulesMessages := None, p_customMessages := None,
          p_errorOverride := None, p_warningOverride := None\<rparr>)"

definition reset :: "FieldCtrl \<Rightarrow> FieldCtrl" where
  "reset s =
     (let s1 = clear (s\<lparr>p_value := defaultValue s, p_touched := 0, p_changed := 0\<rparr>);
          s2 = notify (Param PValue) (SValue (p_value s)) s1;
          s3 = notify (Param PTouched) (SNumber (p_touched s)) s2
      in notify (Param PChanged) (SNumber (p_changed s)) s3)"

text \<open>\<open>validation.required === r\<close>, where \<open>validation.required\<close> may be absent.\<close>

definition strict_eq_required :: "FieldRequired option \<Rightarrow> FieldRequired \<Rightarrow> bool" where
  "strict_eq_required cur r =
     (case (cur, r) of
        (Some (ReqBool a), ReqBool b) \<Rightarrow> a = b
      | (Some (ReqString a), ReqString b) \<Rightarrow> a = b
      | (Some (ReqRule i _), ReqRule j _) \<Rightarrow> i = j
      | _ \<Rightarrow> False)"

definition empty_validation :: FieldValidation where
  "empty_validation =
     \<lparr>cfg_validateOn = None, requiredValidate = None, requiredMessage = None,
      rules = None, required = None\<rparr>"

definition set_required :: "FieldRequired \<Rightarrow> FieldCtrl \<Rightarrow> FieldCtrl" where
  "set_required r s =
     (if (case r of ReqBool b \<Rightarrow> \<not> b | _ \<Rightarrow> False)
         \<and> (case p_validation s of None \<Rightarrow> True | Some _ \<Rightarrow> False) then s
      else
        (let validation = (case p_validation s of None \<Rightarrow> empty_validation | Some v \<Rightarrow> v)
         in if strict_eq_required (required validation) r
            then s\<lparr>p_validation := Some validation\<rparr>
            else
              (let s1 = s\<lparr>p_validation := Some (validation\<lparr>required := Some r\<rparr>)\<rparr>
               in if p_requiredMessage s1 \<noteq> None
                  then updateMessages None False (s1\<lparr>p_requiredMessage := None\<rparr>)
                  else s1)))"

text \<open>
  \<open>set validation(validation)\<close> stores a copy made by \<open>_cloneValidation\<close>; the copy has
  the contents of the original (the copying itself is modelled on a store of objects in
  the section on \<open>_cloneValidation\<close> below).
\<close>

definition set_validation :: "FieldValidation option \<Rightarrow> FieldCtrl \<Rightarrow> FieldCtrl" where
  "set_validation validation s = clearValidated (s\<lparr>p_validation := validation\<rparr>)"

subsection \<open>Sequences of operations\<close>

text \<open>
  Everything a caller can do with a field. \<open>SetParentOptions\<close> is an assignment to
  \<open>validationOptions\<close> of the parent entity.
\<close>

datatype op =
    SetValue jsval
  | TouchValue jsval
  | SetTouched int
  | SetChanged int
  | SetErrorOverride "bool option"
  | SetWarningOverride "bool option"
  | SetCustomMessages "FieldMessage list option"
  | AddListener FieldListenerParam nat
  | RemoveListener FieldListenerParam nat
  | ClearValidated
  | Clear
  | Reset
  | SetRequired FieldRequired
  | SetValidation "FieldValidation option"
  | Validate "ValidationEventType option"
  | SetDefaultValue jsval
  | SetHoldValidation hold_validation
  | SetHoldListeners hold_listeners
  | SetParentOptions "ValidationOptions option"

text \<open>The state when the operation returns, and the validation it leaves pending.\<close>

fun exec :: "op \<Rightarrow> FieldCtrl \<Rightarrow> FieldCtrl \<times> pending option" where
  "exec (SetValue v) s = set_value v s"
| "exec (TouchValue v) s = touch v s"
| "exec (SetTouched t) s = (set_touched t s, None)"
| "exec (SetChanged c) s = (set_changed c s, None)"
| "exec (SetErrorOverride x) s = (set_errorOverride x s, None)"
| "exec (SetWarningOverride x) s = (set_warningOverride x s, None)"
| "exec (SetCustomMessages ms) s = (set_customMessages ms s, None)"
| "exec (AddListener param l) s = (addListener param l s, None)"
| "exec (RemoveListener param l) s = (snd (removeListener param l s), None)"
| "exec ClearValidated s = (clearValidated s, None)"
| "exec Clear s = (clear s, None)"
| "exec Reset s = (reset s, None)"
| "exec (SetRequired r) s = (set_required r s, None)"
| "exec (SetValidation v) s = (set_validation v s, None)"
| "exec (Validate eventType) s =
     (snd (validate_fc eventType s), pending_of (fst (validate_fc eventType s)))"
| "exec (SetDefaultValue v) s = (s\<lparr>defaultValue := v\<rparr>, None)"
| "exec (SetHoldValidation h) s = (s\<lparr>holdValidation := h\<rparr>, None)"
| "exec (SetHoldListeners h) s = (s\<lparr>holdListeners := h\<rparr>, None)"
| "exec (SetParentOptions vo) s =
     ((case parent s of
         None \<Rightarrow> s
       | Some e \<Rightarrow> s\<lparr>parent := Some (e\<lparr>validationOptions := vo\<rparr>)\<rparr>), None)"

text \<open>
  The state after an operation once the validation it started has settled (with no other
  operation in between).
\<close>

definition settled :: "FieldCtrl \<times> pending option \<Rightarrow> FieldCtrl" where
  "settled r = (case snd r of None \<Rightarrow> fst r | Some p \<Rightarrow> snd (settle p (fst r)))"

text \<open>
  The states of a field that a caller can bring about with operations that \<open>allowed\<close>
  admits: a new field; the state in which an operation returns; and the state after the
  validation started by an operation has settled.
\<close>

inductive reachable_by :: "(op \<Rightarrow> FieldCtrl \<Rightarrow> bool) \<Rightarrow> FieldCtrl \<Rightarrow> bool"
  for allowed :: "op \<Rightarrow> FieldCtrl \<Rightarrow> bool" where
  created: "reachable_by allowed (new_FieldCtrl field parent' defaultValue')"
| returned: "reachable_by allowed s \<Longrightarrow> allowed x s \<Longrightarrow> reachable_by allowed (fst (exec x s))"
| awaited: "reachable_by allowed s \<Longrightarrow> allowed x s \<Longrightarrow> reachable_by allowed (settled (exec x s))"

definition reachable :: "FieldCtrl \<Rightarrow> bool" where
  "reachable s = reachable_by (\<lambda>x t. True) s"

section \<open>Validation configs as objects (\<open>_cloneValidation\<close>)\<close>

text \<open>
  A caller and the field can hold references to the same objects, so for the copying of
  configs the objects live in a store: an object is addressed by its position, and a new
  object is put at the end. A config object has its options, a reference to the array of
  references to its rule objects, and \<open>required\<close>: a boolean, a string or a reference to a
  rule object.
\<close>

type_synonym ref = nat

datatype required_ref = RefBool bool | RefString string | RefRule ref

record validation_object = ValidationOptions +
  rules_ref :: "ref option"
  required_ref :: "required_ref option"

datatype object =
    RuleObject FieldValidationRule
  | ArrayObject "ref list"
  | ValidationObject validation_object

type_synonym store = "object list"

definition lookup :: "store \<Rightarrow> ref \<Rightarrow> object option" where
  "lookup h a = (if a < length h then Some (h ! a) else None)"

definition alloc :: "object \<Rightarrow> store \<Rightarrow> ref \<times> store" where
  "alloc x h = (length h, h @ [x])"

text \<open>An assignment to a property of an object by whoever holds a reference to it.\<close>

definition mutate :: "ref \<Rightarrow> object \<Rightarrow> store \<Rightarrow> store" where
  "mutate a x h = h[a := x]"

definition empty_rule :: FieldValidationRule where
  "empty_rule = \<lparr>message = None, type = None, validate = None, typeIfPassed = None,
                  validateOn = None\<rparr>"

text \<open>\<open>for (const rule of rules) copyRules.push({ ...rule })\<close>.\<close>

fun copyRules :: "store \<Rightarrow> ref list \<Rightarrow> ref list \<times> store" where
  "copyRules h [] = ([], h)"
| "copyRules h (r # rs) =
     (let rule = (case lookup h r of Some (RuleObject x) \<Rightarrow> x | _ \<Rightarrow> empty_rule);
          c = alloc (RuleObject rule) h;
          cs = copyRules (snd c) rs
      in (fst c # fst cs, snd cs))"

definition cloneValidation :: "store \<Rightarrow> ref option \<Rightarrow> ref option \<times> store" where
  "cloneValidation h validation =
     (case validation of
        None \<Rightarrow> (None, h)
      | Some a \<Rightarrow>
          (let vo = (case lookup h a of
                       Some (ValidationObject x) \<Rightarrow> x
                     | _ \<Rightarrow> \<lparr>cfg_validateOn = None, requiredValidate = None,
                              requiredMessage = None, rules_ref = None, required_ref = None\<rparr>)
           in case rules_ref vo of
                None \<Rightarrow> (let c = alloc (ValidationObject vo) h in (Some (fst c), snd c))
              | Some arr \<Rightarrow>
                  (let rs = (case lookup h arr of Some (ArrayObject x) \<Rightarrow> x | _ \<Rightarrow> []);
                       cs = copyRules h rs;
                       ca = alloc (ArrayObject (fst cs)) (snd cs);
                       c = alloc (ValidationObject (vo\<lparr>rules_ref := Some (fst ca)\<rparr>)) (snd ca)
                   in (Some (fst c), snd c))))"

text \<open>The getter \<open>validation\<close> of a field whose \<open>_validation\<close> is the given reference.\<close>

definition get_validation :: "store \<Rightarrow> ref option \<Rightarrow> ref option \<times> store" where
  "get_validation h p_validation_ref = cloneValidation h p_validation_ref"

text \<open>The config that \<open>_validate\<close> reads through a reference, by value.\<close>

definition resolve_rule :: "store \<Rightarrow> ref \<Rightarrow> FieldValidationRule" where
  "resolve_rule h r = (case lookup h r of Some (RuleObject x) \<Rightarrow> x | _ \<Rightarrow> empty_rule)"

definition resolve :: "store \<Rightarrow> ref option \<Rightarrow> FieldValidation option" where
  "resolve h validation =
     (case validation of
        None \<Rightarrow> None
      | Some a \<Rightarrow>
          (case lookup h a of
             Some (ValidationObject vo) \<Rightarrow>
               Some \<lparr>cfg_validateOn = cfg_validateOn vo, requiredValidate = requiredValidate vo,
                      requiredMessage = requiredMessage vo,
                      rules = (case rules_ref vo of
                                 None \<Rightarrow> None
                               | Some arr \<Rightarrow>
                                   (case lookup h arr of
                                      Some (ArrayObject rs) \<Rightarrow> Some (map (resolve_rule h) rs)
                                    | _ \<Rightarrow> None)),
                      required = (case required_ref vo of
                                    None \<Rightarrow> None
                                  | Some (RefBool b) \<Rightarrow> Some (ReqBool b)
                                  | Some (RefString str) \<Rightarrow> Some (ReqString str)
                                  | Some (RefRule r) \<Rightarrow> Some (ReqRule r (resolve_rule h r)))\<rparr>
           | _ \<Rightarrow> None))"

section \<open>Notions used in the statements\<close>

text \<open>Whether some message of a list has the given kind.\<close>

definition has_kind :: "FieldMessageType \<Rightarrow> FieldMessage list \<Rightarrow> bool" where
  "has_kind k ms = list_ex (\<lambda>m. type m = Some k) ms"

text \<open>
  The law of claims C1 and C2 for one state: \<open>messages\<close> is the concatenation of the three
  sources (\<open>null\<close> when there is none), and each flag is its override when that is set
  and otherwise says whether a source message has its kind.
\<close>

definition flag_law :: "bool option \<Rightarrow> bool \<Rightarrow> bool \<Rightarrow> bool" where
  "flag_law override flag derived = (flag = (case override of Some b \<Rightarrow> b | None \<Rightarrow> derived))"

definition coherent :: "FieldCtrl \<Rightarrow> bool" where
  "coherent s =
     (get_messages s = (if sources s = [] then None else Some (sources s))
      \<and> flag_law (p_errorOverride s) (p_error s) (has_kind TError (sources s))
      \<and> flag_law (p_warningOverride s) (p_warning s) (has_kind TWarning (sources s)))"

text \<open>An operation that leaves no validation pending: no check it ran returned a promise.\<close>

definition synchronous :: "op \<Rightarrow> FieldCtrl \<Rightarrow> bool" where
  "synchronous x s = (snd (exec x s) = None)"

text \<open>An override that is set pins its flag.\<close>

definition pinned :: "FieldCtrl \<Rightarrow> bool" where
  "pinned s =
     ((p_errorOverride s = None \<or> p_errorOverride s = Some (p_error s))
      \<and> (p_warningOverride s = None \<or> p_warningOverride s = Some (p_warning s)))"

definition keeps_order :: "op \<Rightarrow> FieldCtrl \<Rightarrow> bool" where
  "keeps_order x s =
     (case x of
        SetTouched t \<Rightarrow> t \<le> p_changed s
      | SetChanged c \<Rightarrow> p_touched s \<le> c
      | _ \<Rightarrow> True)"


text \<open>The stored message of a slot: \<open>this._requiredMessage\<close> or \<open>rulesMessages[index]\<close>.\<close>

definition slot_message :: "FieldCtrl \<Rightarrow> slot \<Rightarrow> FieldMessage option" where
  "slot_message s idx =
     (case idx of Required \<Rightarrow> p_requiredMessage s | Index i \<Rightarrow> arr_get (rulesMessages s) i)"


definition result_slot :: "result \<Rightarrow> slot" where
  "result_slot x = (case x of Done i _ \<Rightarrow> i | Later i _ _ \<Rightarrow> i)"

text \<open>The slots of the rules for which a call of \<open>_validate\<close> pushes a result, in order.\<close>

definition executed :: "ValidationEventType option \<Rightarrow> FieldCtrl \<Rightarrow> slot list" where
  "executed eventType s =
     (case rulesRun eventType s of None \<Rightarrow> [] | Some r \<Rightarrow> map result_slot (results r))"

text \<open>
  The resolved trigger in the words of claim C5: the rule's own \<open>validateOn\<close>, else the
  config-level \<open>validateOn\<close>, else the default \<open>demand\<close>.
\<close>

definition spec_resolvedTrigger :: "FieldValidation \<Rightarrow> FieldValidationRule \<Rightarrow> ValidationEventType" where
  "spec_resolvedTrigger validation rule =
     (case validateOn rule of
        Some e \<Rightarrow> e
      | None \<Rightarrow> (case cfg_validateOn validation of Some e \<Rightarrow> e | None \<Rightarrow> Demand))"

section \<open>Example fields\<close>

definition reqMsg :: FieldMessage where
  "reqMsg = \<lparr>message = Some ''Required field'', type = Some TError\<rparr>"

definition infoMsg :: FieldMessage where
  "infoMsg = \<lparr>message = Some ''I'', type = Some TInfo\<rparr>"

definition warnMsg :: FieldMessage where
  "warnMsg = \<lparr>message = Some ''W'', type = Some TWarning\<rparr>"

definition errMsg :: FieldMessage where
  "errMsg = \<lparr>message = Some ''E'', type = Some TError\<rparr>"

text \<open>A field with a listener for every change and one custom message.\<close>

definition field_with_warning :: FieldCtrl where
  "field_with_warning =
     set_customMessages (Some [warnMsg]) (addListener Any 7 (new_FieldCtrl ''a'' None (JNumber 2)))"

text \<open>The field of the test "change value, touched, changed", with \<open>touched = 2\<close> at the end.\<close>

definition counters_example :: FieldCtrl where
  "counters_example =
     fst (exec (SetTouched 2)
       (fst (exec (TouchValue (JNumber 7))
         (fst (exec (SetValue (JNumber 5)) (new_FieldCtrl ''a'' None (JNumber 2)))))))"

text \<open>A field of an entity whose validation options say \<open>validateOn: 'change'\<close>, with one
  rule that names no trigger.\<close>

definition plain_rule :: FieldValidationRule where
  "plain_rule = \<lparr>message = Some ''E'', type = None, validate = Some (\<lambda>fc. Returns True),
                  typeIfPassed = None, validateOn = None\<rparr>"

definition plain_validation :: FieldValidation where
  "plain_validation = empty_validation\<lparr>rules := Some [plain_rule]\<rparr>"

definition field_of_entity :: FieldCtrl where
  "field_of_entity =
     set_validation (Some plain_validation)
       (new_FieldCtrl ''a''
          (Some \<lparr>validationOptions = Some \<lparr>cfg_validateOn = Some Change, requiredValidate = None,
                                            requiredMessage = None\<rparr>\<rparr>)
          (JNumber 2))"




text \<open>
  A field with one rule whose check returns a promise that is fulfilled with \<open>false\<close>,
  after \<open>await fc.validate()\<close>; and the same field after \<open>errorOverride = false\<close>
  followed by \<open>errorOverride = null\<close>.
\<close>

definition async_rule :: FieldValidationRule where
  "async_rule = \<lparr>message = Some ''E'', type = Some TError,
                  validate = Some (\<lambda>fc. Promise (Fulfilled False)),
                  typeIfPassed = None, validateOn = None\<rparr>"

definition field_async :: FieldCtrl where
  "field_async =
     set_validation (Some (empty_validation\<lparr>rules := Some [async_rule]\<rparr>))
       (new_FieldCtrl ''a'' None (JNumber 2))"

definition field_async_awaited :: FieldCtrl where
  "field_async_awaited = snd (validate_await None field_async)"

definition field_async_unpinned :: FieldCtrl where
  "field_async_unpinned =
     set_errorOverride None (set_errorOverride (Some False) field_async_awaited)"

text \<open>
  A store with a rule object at 0 and, at 1, the config \<open>{required: <object 0>}\<close> of a
  field; the store after the getter; and the store after the caller has assigned
  \<open>message\<close> of the \<open>required\<close> object of the returned copy.
\<close>

definition required_rule_object :: FieldValidationRule where
  "required_rule_object =
     \<lparr>message = Some ''Required'', type = Some TError,
      validate = Some VALIDATION_DEFAULTS_requiredValidate, typeIfPassed = None,
      validateOn = None\<rparr>"

definition store_before :: store where
  "store_before =
     [RuleObject required_rule_object,
      ValidationObject \<lparr>cfg_validateOn = None, requiredValidate = None, requiredMessage = None,
                        rules_ref = None, required_ref = Some (RefRule 0)\<rparr>]"

definition store_after_get :: store where
  "store_after_get = snd (get_validation store_before (Some 1))"

definition store_after_write :: store where
  "store_after_write =
     mutate 0 (RuleObject (required_rule_object\<lparr>message := Some ''changed''\<rparr>)) store_after_get"

text \<open>A field with the given config, and \<open>value = 0\<close>.\<close>

definition field_with_config :: "FieldValidation option \<Rightarrow> FieldCtrl" where
  "field_with_config v = set_validation v (new_FieldCtrl ''a'' None (JNumber 0))"

section \<open>Notions used in the proofs\<close>

text \<open>The listener calls that one call of \<open>_triggerListeners\<close> makes.\<close>

definition emitted :: "FieldListenerParam \<Rightarrow> snapshot \<Rightarrow> FieldCtrl \<Rightarrow> (nat \<times> FieldListenerParam \<times> snapshot) list" where
  "emitted param prev s =
     (if (case param of Param p \<Rightarrow> object_is (current p s) prev | Any \<Rightarrow> False) then []
      else if holdParamListeners (holdListeners s) param then []
      else (case get_listeners param s of
              NoListeners \<Rightarrow> [] | Plain l \<Rightarrow> [(l, param, prev)]
            | SetOf ls \<Rightarrow> map (\<lambda>l. (l, param, prev)) ls))"

text \<open>The list that a full recompute builds from the three sources, as a new array.\<close>

definition composed :: "FieldCtrl \<Rightarrow> (nat \<times> FieldMessage list) option" where
  "composed s = (if sources s = [] then None else Some (allocated s, sources s))"

definition announced :: "FieldCtrl \<Rightarrow> FieldCtrl \<Rightarrow> (nat \<times> FieldListenerParam \<times> snapshot) list" where
  "announced s t =
     emitted (Param PError) (SBool (p_error s)) t
     @ emitted (Param PWarning) (SBool (p_warning s)) t
     @ emitted (Param PMessages) (SMessages (p_messages s)) t
     @ (if p_error t \<noteq> p_error s \<or> p_warning t \<noteq> p_warning s
           \<or> map_option fst (p_messages t) \<noteq> map_option fst (p_messages s)
        then emitted Any SNothing t else [])"

definition slots_only :: "FieldCtrl \<Rightarrow> FieldCtrl \<Rightarrow> bool" where
  "slots_only s t =
     (t = s\<lparr>p_requiredMessage := p_requiredMessage t, p_rulesMessages := p_rulesMessages t\<rparr>)"

definition entry_of :: "FieldParams \<Rightarrow> slot \<times> FieldValidationRule \<Rightarrow> result" where
  "entry_of view w =
     (case runCheck (snd w) view of
        Plain_bool b \<Rightarrow> Done (fst w) b
      | A_promise p \<Rightarrow> Later (fst w) (snd w) p)"

definition runs :: "ValidationEventType option \<Rightarrow> FieldCtrl \<Rightarrow> FieldValidation \<Rightarrow> slot \<times> FieldValidationRule \<Rightarrow> bool" where
  "runs eventType s validation w =
     shouldValidate eventType (holdValidation s) (ruleValidateOn s validation (snd w))"

definition is_later :: "result \<Rightarrow> bool" where
  "is_later x = (case x of Done _ _ \<Rightarrow> False | Later _ _ _ \<Rightarrow> True)"

definition validated_only :: "FieldCtrl \<Rightarrow> FieldCtrl \<Rightarrow> bool" where
  "validated_only s t =
     (t = s\<lparr>p_error := p_error t, p_warning := p_warning t, p_messages := p_messages t,
            p_requiredMessage := p_requiredMessage t, p_rulesMessages := p_rulesMessages t,
            allocated := allocated t, calls := calls t\<rparr>)"


text \<open>
  The references that \<open>resolve\<close> follows from a config reference: the config object, its
  rules array, its rule objects and the rule object of \<open>required\<close>.
\<close>

definition config_refs :: "store \<Rightarrow> ref option \<Rightarrow> ref list" where
  "config_refs h validation =
     (case validation of
        None \<Rightarrow> []
      | Some a \<Rightarrow>
          a # (case lookup h a of
                 Some (ValidationObject vo) \<Rightarrow>
                   (case rules_ref vo of
                      None \<Rightarrow> []
                    | Some arr \<Rightarrow>
                        arr # (case lookup h arr of Some (ArrayObject rs) \<Rightarrow> rs | _ \<Rightarrow> []))
                   @ (case required_ref vo of Some (RefRule r) \<Rightarrow> [r] | _ \<Rightarrow> [])
               | _ \<Rightarrow> []))"

section \<open>Listeners and message composition\<close>

lemma triggerListeners_state:
  "snd (triggerListeners param prev s) = s\<lparr>calls := calls s @ emitted param prev s\<rparr>"
  by (cases "get_listeners param s") (simp_all add: triggerListeners_def emitted_def invoke_def)

lemma triggerListeners_changed:
  "fst (triggerListeners param prev s) = (case param of Param p \<Rightarrow> \<not> object_is (current p s) prev | Any \<Rightarrow> True)"
  by (simp add: triggerListeners_def split: FieldListenerParam.splits)

lemma notify_state: "notify param prev s = s\<lparr>calls := calls s @ emitted param prev s\<rparr>"
  by (simp add: notify_def triggerListeners_state)


lemma foldl_slots:
  "foldl (\<lambda>t slot. case slot of None \<Rightarrow> t | Some m \<Rightarrow> f t m) t rm = foldl f t (List.map_filter id rm)"
  by (induction rm arbitrary: t) (simp_all add: List.map_filter_simps split: option.splits)

lemma foldl_full:
  "foldl (processInternalMessage None eo wo) t ms =
     (if ms = [] then t
      else t\<lparr>p_messages := Some (case p_messages t of None \<Rightarrow> (allocated t, ms) | Some (i, xs) \<Rightarrow> (i, xs @ ms)),
             allocated := (if p_messages t = None then Suc (allocated t) else allocated t),
             p_error := (case eo of Some b \<Rightarrow> b | None \<Rightarrow> p_error t \<or> has_kind TError ms),
             p_warning := (case wo of Some b \<Rightarrow> b | None \<Rightarrow> p_warning t \<or> has_kind TWarning ms)\<rparr>)"
proof (induction ms arbitrary: t)
  case Nil
  show ?case by simp
next
  case (Cons m ms)
  let ?t = "processInternalMessage None eo wo t m"
  have "foldl (processInternalMessage None eo wo) t (m # ms) = foldl (processInternalMessage None eo wo) ?t ms"
    by simp
  also have "\<dots> = (if ms = [] then ?t
      else ?t\<lparr>p_messages := Some (case p_messages ?t of None \<Rightarrow> (allocated ?t, ms) | Some (i, xs) \<Rightarrow> (i, xs @ ms)),
             allocated := (if p_messages ?t = None then Suc (allocated ?t) else allocated ?t),
             p_error := (case eo of Some b \<Rightarrow> b | None \<Rightarrow> p_error ?t \<or> has_kind TError ms),
             p_warning := (case wo of Some b \<Rightarrow> b | None \<Rightarrow> p_warning ?t \<or> has_kind TWarning ms)\<rparr>)"
    by (rule Cons.IH)
  also have "\<dots> = t\<lparr>p_messages := Some (case p_messages t of None \<Rightarrow> (allocated t, m # ms) | Some (i, xs) \<Rightarrow> (i, xs @ m # ms)),
             allocated := (if p_messages t = None then Suc (allocated t) else allocated t),
             p_error := (case eo of Some b \<Rightarrow> b | None \<Rightarrow> p_error t \<or> has_kind TError (m # ms)),
             p_warning := (case wo of Some b \<Rightarrow> b | None \<Rightarrow> p_warning t \<or> has_kind TWarning (m # ms))\<rparr>"
    by (cases "p_messages t"; cases eo; cases wo; cases "ms = []")
       (auto simp: processInternalMessage_def has_kind_def)
  finally show ?case by simp
qed

lemma foldl_onlyError:
  "foldl (processInternalMessage (Some OnlyError) eo wo) t ms =
     (if ms = [] then t
      else t\<lparr>p_error := (case eo of Some b \<Rightarrow> b | None \<Rightarrow> p_error t \<or> has_kind TError ms)\<rparr>)"
proof (induction ms arbitrary: t)
  case Nil
  show ?case by simp
next
  case (Cons m ms)
  let ?t = "processInternalMessage (Some OnlyError) eo wo t m"
  have "foldl (processInternalMessage (Some OnlyError) eo wo) t (m # ms) = foldl (processInternalMessage (Some OnlyError) eo wo) ?t ms"
    by simp
  also have "\<dots> = (if ms = [] then ?t
      else ?t\<lparr>p_error := (case eo of Some b \<Rightarrow> b | None \<Rightarrow> p_error ?t \<or> has_kind TError ms)\<rparr>)"
    by (rule Cons.IH)
  also have "\<dots> = t\<lparr>p_error := (case eo of Some b \<Rightarrow> b | None \<Rightarrow> p_error t \<or> has_kind TError (m # ms))\<rparr>"
    by (cases eo; cases "ms = []") (auto simp: processInternalMessage_def has_kind_def)
  finally show ?case by simp
qed

lemma foldl_onlyWarning:
  "foldl (processInternalMessage (Some OnlyWarning) eo wo) t ms =
     (if ms = [] then t
      else t\<lparr>p_warning := (case wo of Some b \<Rightarrow> b | None \<Rightarrow> p_warning t \<or> has_kind TWarning ms)\<rparr>)"
proof (induction ms arbitrary: t)
  case Nil
  show ?case by simp
next
  case (Cons m ms)
  let ?t = "processInternalMessage (Some OnlyWarning) eo wo t m"
  have "foldl (processInternalMessage (Some OnlyWarning) eo wo) t (m # ms) = foldl (processInternalMessage (Some OnlyWarning) eo wo) ?t ms"
    by simp
  also have "\<dots> = (if ms = [] then ?t
      else ?t\<lparr>p_warning := (case wo of Some b \<Rightarrow> b | None \<Rightarrow> p_warning ?t \<or> has_kind TWarning ms)\<rparr>)"
    by (rule Cons.IH)
  also have "\<dots> = t\<lparr>p_warning := (case wo of Some b \<Rightarrow> b | None \<Rightarrow> p_warning t \<or> has_kind TWarning (m # ms))\<rparr>"
    by (cases wo; cases "ms = []") (auto simp: processInternalMessage_def has_kind_def)
  finally show ?case by simp
qed

lemma composeMessages_fold:
  "composeMessages only' s =
     foldl (processInternalMessage only' (p_errorOverride s) (p_warningOverride s))
       (let s1 = (if only' = None then s\<lparr>p_messages := None\<rparr> else s);
            s2 = (if only' \<noteq> Some OnlyWarning
                  then s1\<lparr>p_error := (case p_errorOverride s of Some b \<Rightarrow> b | None \<Rightarrow> False)\<rparr> else s1)
        in (if only' \<noteq> Some OnlyError
            then s2\<lparr>p_warning := (case p_warningOverride s of Some b \<Rightarrow> b | None \<Rightarrow> False)\<rparr> else s2))
       (sources s)"
  by (simp add: composeMessages_def sources_def foldl_slots Let_def split: option.splits)

lemma composeMessages_full:
  "composeMessages None s =
     s\<lparr>p_messages := composed s,
       allocated := (if sources s = [] then allocated s else Suc (allocated s)),
       p_error := (case p_errorOverride s of Some b \<Rightarrow> b | None \<Rightarrow> has_kind TError (sources s)),
       p_warning := (case p_warningOverride s of Some b \<Rightarrow> b | None \<Rightarrow> has_kind TWarning (sources s))\<rparr>"
  by (simp add: composeMessages_fold foldl_full composed_def has_kind_def split: option.splits)

lemma composeMessages_onlyError:
  "composeMessages (Some OnlyError) s =
     s\<lparr>p_error := (case p_errorOverride s of Some b \<Rightarrow> b | None \<Rightarrow> has_kind TError (sources s))\<rparr>"
  by (simp add: composeMessages_fold foldl_onlyError has_kind_def split: option.splits)

lemma composeMessages_onlyWarning:
  "composeMessages (Some OnlyWarning) s =
     s\<lparr>p_warning := (case p_warningOverride s of Some b \<Rightarrow> b | None \<Rightarrow> has_kind TWarning (sources s))\<rparr>"
  by (simp add: composeMessages_fold foldl_onlyWarning has_kind_def split: option.splits)

lemma current_calls [simp]: "current p (s\<lparr>calls := c\<rparr>) = current p s"
  by (cases p) (simp_all add: current_def)

lemma get_listeners_calls [simp]: "get_listeners param (s\<lparr>calls := c\<rparr>) = get_listeners param s"
  by (simp add: get_listeners_def split: FieldListenerParam.splits FieldParam.splits)

lemma emitted_calls [simp]: "emitted param prev (s\<lparr>calls := c\<rparr>) = emitted param prev s"
  by (simp add: emitted_def split: FieldListenerParam.splits)

lemma composeMessages_calls [simp]: "calls (composeMessages only' s) = calls s"
proof (cases only')
  case None
  then show ?thesis by (simp add: composeMessages_full)
next
  case (Some x)
  then show ?thesis by (cases x) (simp_all add: composeMessages_onlyError composeMessages_onlyWarning)
qed

lemma updateMessages_state:
  "updateMessages only' skip s =
     (if skip then composeMessages only' s
      else (composeMessages only' s)\<lparr>calls := calls s @ announced s (composeMessages only' s)\<rparr>)"
  by (simp add: updateMessages_def Let_def triggerListeners_state triggerListeners_changed
        announced_def current_def)

section \<open>What validation leaves unchanged\<close>

lemma slots_only_refl [simp]: "slots_only s s"
  by (simp add: slots_only_def)

lemma slots_only_trans: "slots_only s t \<Longrightarrow> slots_only t u \<Longrightarrow> slots_only s u"
  unfolding slots_only_def
proof -
  assume a: "t = s\<lparr>p_requiredMessage := p_requiredMessage t, p_rulesMessages := p_rulesMessages t\<rparr>"
    and b: "u = t\<lparr>p_requiredMessage := p_requiredMessage u, p_rulesMessages := p_rulesMessages u\<rparr>"
  have "u = (s\<lparr>p_requiredMessage := p_requiredMessage t, p_rulesMessages := p_rulesMessages t\<rparr>)
              \<lparr>p_requiredMessage := p_requiredMessage u, p_rulesMessages := p_rulesMessages u\<rparr>"
    using a b by simp
  then show "u = s\<lparr>p_requiredMessage := p_requiredMessage u, p_rulesMessages := p_rulesMessages u\<rparr>"
    by simp
qed

lemma slots_only_update [simp]:
  "slots_only s (s\<lparr>p_requiredMessage := x\<rparr>)" "slots_only s (s\<lparr>p_rulesMessages := y\<rparr>)"
  by (simp_all add: slots_only_def)

lemma processPassed_fst [simp]: "fst (processPassed rule idx passed st) = passed"
  by (simp add: processPassed_def Let_def split: option.splits slot.splits)

lemma processPassed_slots: "slots_only (snd st) (snd (snd (processPassed rule idx passed st)))"
  by (simp add: processPassed_def Let_def split: option.splits slot.splits)

lemma slots_only_params: "slots_only s t \<Longrightarrow> params t = params s"
  unfolding slots_only_def
  by (erule ssubst) (simp add: params_def get_messages_def)

lemma slots_only_runs: "slots_only s t \<Longrightarrow> runs e t v w = runs e s v w"
  unfolding slots_only_def
  by (erule ssubst)
     (simp add: runs_def ruleValidateOn_def getValidationDefault_validateOn_def parentOptions_def
        split: option.splits)

lemma validateRule_step:
  "validateRule e v r w =
     (if \<not> runs e (fc r) v w then r
      else r\<lparr>fc := (case runCheck (snd w) (params (fc r)) of
                     A_promise p \<Rightarrow> fc r
                   | Plain_bool b \<Rightarrow> snd (snd (processPassed (snd w) (fst w) b (needUpdate r, fc r)))),
             promisified := (promisified r \<or> is_later (entry_of (params (fc r)) w)),
             needUpdate := (case runCheck (snd w) (params (fc r)) of
                     A_promise p \<Rightarrow> needUpdate r
                   | Plain_bool b \<Rightarrow> fst (snd (processPassed (snd w) (fst w) b (needUpdate r, fc r)))),
             results := results r @ [entry_of (params (fc r)) w]\<rparr>)"
  by (simp add: validateRule_def runs_def entry_of_def is_later_def Let_def split: maybe_promise.splits)

lemma foldl_validateRule:
  "slots_only s (fc r) \<Longrightarrow>
   slots_only s (fc (foldl (validateRule e v) r ws))
   \<and> results (foldl (validateRule e v) r ws)
       = results r @ map (entry_of (params s)) (filter (runs e s v) ws)
   \<and> promisified (foldl (validateRule e v) r ws)
       = (promisified r \<or> list_ex is_later (map (entry_of (params s)) (filter (runs e s v) ws)))"
proof (induction ws arbitrary: r)
  case Nil
  then show ?case by simp
next
  case (Cons w ws)
  let ?r = "validateRule e v r w"
  have p: "params (fc r) = params s" and q: "runs e (fc r) v w = runs e s v w"
    using Cons.prems by (simp_all add: slots_only_params slots_only_runs)
  have s1: "slots_only (fc r) (fc ?r)"
    using processPassed_slots [of "(needUpdate r, fc r)"]
    by (simp add: validateRule_step split: maybe_promise.splits)
  have s2: "slots_only s (fc ?r)"
    using Cons.prems s1 by (rule slots_only_trans)
  have res: "results ?r = results r @ (if runs e s v w then [entry_of (params s) w] else [])"
    by (simp add: validateRule_step p q)
  have pro: "promisified ?r = (promisified r \<or> (runs e s v w \<and> is_later (entry_of (params s) w)))"
    by (auto simp add: validateRule_step p q)
  show ?case
    using Cons.IH [OF s2] by (auto simp: res pro)
qed

lemma validated_only_refl [simp]: "validated_only s s"
  by (simp add: validated_only_def)

lemma validated_only_trans: "validated_only s t \<Longrightarrow> validated_only t u \<Longrightarrow> validated_only s u"
  unfolding validated_only_def
proof -
  assume a: "t = s\<lparr>p_error := p_error t, p_warning := p_warning t, p_messages := p_messages t,
            p_requiredMessage := p_requiredMessage t, p_rulesMessages := p_rulesMessages t,
            allocated := allocated t, calls := calls t\<rparr>"
    and b: "u = t\<lparr>p_error := p_error u, p_warning := p_warning u, p_messages := p_messages u,
            p_requiredMessage := p_requiredMessage u, p_rulesMessages := p_rulesMessages u,
            allocated := allocated u, calls := calls u\<rparr>"
  have "u = (s\<lparr>p_error := p_error t, p_warning := p_warning t, p_messages := p_messages t,
            p_requiredMessage := p_requiredMessage t, p_rulesMessages := p_rulesMessages t,
            allocated := allocated t, calls := calls t\<rparr>)
             \<lparr>p_error := p_error u, p_warning := p_warning u, p_messages := p_messages u,
            p_requiredMessage := p_requiredMessage u, p_rulesMessages := p_rulesMessages u,
            allocated := allocated u, calls := calls u\<rparr>"
    using a b by simp
  then show "u = s\<lparr>p_error := p_error u, p_warning := p_warning u, p_messages := p_messages u,
            p_requiredMessage := p_requiredMessage u, p_rulesMessages := p_rulesMessages u,
            allocated := allocated u, calls := calls u\<rparr>"
    by simp
qed

lemma slots_only_validated: "slots_only s t \<Longrightarrow> validated_only s t"
  unfolding slots_only_def validated_only_def
  by (erule ssubst) simp

lemma composeMessages_validated: "validated_only s (composeMessages only' s)"
proof (cases only')
  case None
  then show ?thesis by (simp add: composeMessages_full validated_only_def)
next
  case (Some x)
  then show ?thesis
    by (cases x) (simp_all add: composeMessages_onlyError composeMessages_onlyWarning validated_only_def)
qed

lemma validated_only_calls: "validated_only s t \<Longrightarrow> validated_only s (t\<lparr>calls := c\<rparr>)"
  unfolding validated_only_def by (erule ssubst) simp

lemma updateMessages_validated: "validated_only s (updateMessages only' skip s)"
  by (simp add: updateMessages_state composeMessages_validated validated_only_calls)

lemma notify_validated: "validated_only s t \<Longrightarrow> validated_only s (notify param prev t)"
  by (simp add: notify_state validated_only_calls)

lemma rulesRun_slots:
  assumes "rulesRun e s = Some r"
  shows "slots_only s (fc r)"
proof -
  obtain v where v: "p_validation s = Some v" and h: "\<not> holdForSure (holdValidation s) e"
    and r: "r = foldl (validateRule e v)
                 \<lparr>fc = s\<lparr>p_rulesMessages := Some (rulesMessages s)\<rparr>, promisified = False,
                  needUpdate = False, results = []\<rparr>
                 (workList (s\<lparr>p_rulesMessages := Some (rulesMessages s)\<rparr>) v)"
    using assms by (auto simp: rulesRun_def Let_def split: option.splits if_splits)
  have "slots_only (s\<lparr>p_rulesMessages := Some (rulesMessages s)\<rparr>) (fc r)"
    unfolding r by (rule foldl_validateRule [THEN conjunct1]) simp
  moreover have "slots_only s (s\<lparr>p_rulesMessages := Some (rulesMessages s)\<rparr>)"
    by simp
  ultimately show ?thesis by (blast intro: slots_only_trans)
qed

lemma p_validate_validated: "validated_only s (snd (p_validate e skip s))"
proof (cases "rulesRun e s")
  case None
  then show ?thesis by (simp add: p_validate_def)
next
  case (Some r)
  have a: "validated_only s (fc r)"
    using rulesRun_slots [OF Some] by (rule slots_only_validated)
  have b: "validated_only s (updateMessages None skip (fc r))"
    using a updateMessages_validated by (rule validated_only_trans)
  show ?thesis using Some a b by (simp add: p_validate_def)
qed

lemma settle_task_slots: "slots_only (snd acc) (snd (settle_task acc x))"
  using processPassed_slots [of "(True, snd acc)"]
  by (simp add: settle_task_def Let_def split: result.splits)

lemma foldl_settle_task_slots: "slots_only (snd acc) (snd (foldl settle_task acc xs))"
proof (induction xs arbitrary: acc)
  case Nil
  show ?case by simp
next
  case (Cons x xs)
  have "slots_only (snd acc) (snd (settle_task acc x))" by (rule settle_task_slots)
  moreover have "slots_only (snd (settle_task acc x)) (snd (foldl settle_task (settle_task acc x) xs))"
    by (rule Cons.IH)
  ultimately show ?case by (simp add: slots_only_trans)
qed

lemma settle_validated: "validated_only s (snd (settle p s))"
proof -
  have a: "validated_only s (snd (foldl settle_task ([], s) (tasks p)))"
    using foldl_settle_task_slots [of "([], s)"] by (simp add: slots_only_validated)
  have b: "validated_only s (updateMessages None False (snd (foldl settle_task ([], s) (tasks p))))"
    using a updateMessages_validated by (rule validated_only_trans)
  show ?thesis using a b by (simp add: settle_def Let_def)
qed

lemma validated_only_kept:
  assumes "validated_only s t"
  shows "p_value t = p_value s" "p_touched t = p_touched s" "p_changed t = p_changed s"
    "p_errorOverride t = p_errorOverride s" "p_warningOverride t = p_warningOverride s"
    "p_customMessages t = p_customMessages s" "p_validation t = p_validation s"
    "holdValidation t = holdValidation s" "holdListeners t = holdListeners s"
    "parent t = parent s" "defaultValue t = defaultValue s"
  using assms unfolding validated_only_def by (erule_tac [!] ssubst) simp_all

lemma set_value_validated:
  "validated_only (s\<lparr>p_value := v, p_changed := p_changed s + 1\<rparr>) (fst (set_value v s))"
  by (simp add: set_value_def Let_def notify_validated p_validate_validated)

lemma settled_validated: "validated_only (fst r) (settled r)"
  by (simp add: settled_def settle_validated split: option.splits)

section \<open>The counters\<close>

lemma set_listeners_counters [simp]:
  "p_touched (set_listeners param ls s) = p_touched s"
  "p_changed (set_listeners param ls s) = p_changed s"
  by (simp_all add: set_listeners_def split: FieldListenerParam.splits FieldParam.splits)

lemma p_validate_counters [simp]:
  "p_touched (snd (p_validate e skip s)) = p_touched s"
  "p_changed (snd (p_validate e skip s)) = p_changed s"
  "p_value (snd (p_validate e skip s)) = p_value s"
  using validated_only_kept [OF p_validate_validated [of s e skip]] by simp_all

lemma settled_counters [simp]:
  "p_touched (settled r) = p_touched (fst r)"
  "p_changed (settled r) = p_changed (fst r)"
  "p_value (settled r) = p_value (fst r)"
  using validated_only_kept [OF settled_validated [of r]] by simp_all

lemma set_value_counters [simp]:
  "p_touched (fst (set_value v s)) = p_touched s"
  "p_changed (fst (set_value v s)) = p_changed s + 1"
  "p_value (fst (set_value v s)) = v"
  by (simp_all add: set_value_def Let_def notify_state)

lemma touch_counters [simp]:
  "p_touched (fst (touch v s)) = p_touched s + 1"
  "p_changed (fst (touch v s)) = p_changed s + 1"
  "p_value (fst (touch v s)) = v"
  by (simp_all add: touch_def Let_def notify_state)

lemma updateMessages_counters [simp]:
  "p_touched (updateMessages only' skip s) = p_touched s"
  "p_changed (updateMessages only' skip s) = p_changed s"
  using validated_only_kept [OF updateMessages_validated [of s only' skip]] by simp_all

lemma exec_touched:
  "p_touched (fst (exec x s)) =
     (case x of TouchValue _ \<Rightarrow> p_touched s + 1 | SetTouched t \<Rightarrow> t | Reset \<Rightarrow> 0
      | _ \<Rightarrow> p_touched s)"
  by (cases x)
     (simp_all add: set_touched_def set_changed_def notify_state set_errorOverride_def
        set_warningOverride_def set_customMessages_def addListener_def removeListener_def
        clearValidated_def clear_def reset_def set_required_def set_validation_def
        validate_fc_def Let_def split: option.splits listeners.splits)

lemma exec_changed:
  "p_changed (fst (exec x s)) =
     (case x of SetValue _ \<Rightarrow> p_changed s + 1 | TouchValue _ \<Rightarrow> p_changed s + 1
      | SetChanged c \<Rightarrow> c | Reset \<Rightarrow> 0 | _ \<Rightarrow> p_changed s)"
  by (cases x)
     (simp_all add: set_touched_def set_changed_def notify_state set_errorOverride_def
        set_warningOverride_def set_customMessages_def addListener_def removeListener_def
        clearValidated_def clear_def reset_def set_required_def set_validation_def
        validate_fc_def Let_def split: option.splits listeners.splits)

lemma exec_keeps_order:
  "keeps_order x s \<Longrightarrow> p_touched s \<le> p_changed s \<Longrightarrow> p_touched (fst (exec x s)) \<le> p_changed (fst (exec x s))"
  by (simp only: exec_touched exec_changed, cases x) (simp_all add: keeps_order_def)

lemma set_errorOverride_get [simp]: "p_errorOverride (set_errorOverride x s) = x"
  by (cases x)
     (simp_all add: set_errorOverride_def updateMessages_state composeMessages_onlyError notify_state)

lemma set_warningOverride_get [simp]: "p_warningOverride (set_warningOverride x s) = x"
  by (cases x)
     (simp_all add: set_warningOverride_def updateMessages_state composeMessages_onlyWarning notify_state)


subsection \<open>Value assignments\<close>



subsection \<open>The order of the counters\<close>

text \<open>
  Claim C3, as stated, fails: a direct assignment \<open>touched = 1\<close> on a new field gives
  \<open>touched = 1\<close> and \<open>changed = 0\<close>.
\<close>

theorem C3_counterexample:
  "reachable (set_touched 1 (new_FieldCtrl ''a'' None (JNumber 2)))
   \<and> \<not> p_touched (set_touched 1 (new_FieldCtrl ''a'' None (JNumber 2)))
         \<le> p_changed (set_touched 1 (new_FieldCtrl ''a'' None (JNumber 2)))"
proof -
  have "reachable_by (\<lambda>x t. True) (fst (exec (SetTouched 1) (new_FieldCtrl ''a'' None (JNumber 2))))"
    by (rule reachable_by.returned [OF reachable_by.created]) simp
  then have a: "reachable (set_touched 1 (new_FieldCtrl ''a'' None (JNumber 2)))"
    by (simp add: reachable_def)
  have b: "\<not> p_touched (set_touched 1 (new_FieldCtrl ''a'' None (JNumber 2)))
         \<le> p_changed (set_touched 1 (new_FieldCtrl ''a'' None (JNumber 2)))"
    by (simp add: set_touched_def notify_state new_FieldCtrl_def)
  show ?thesis using a b by blast
qed

text \<open>
  Claim C3, as it holds: \<open>changed >= touched\<close> holds for a new field and is kept by every
  operation, where a direct assignment \<open>touched = t\<close> is admitted only with
  \<open>t <= changed\<close> and a direct assignment \<open>changed = c\<close> only with \<open>c >= touched\<close>.
\<close>

theorem C3_changed_ge_touched:
  "reachable_by keeps_order s \<Longrightarrow> p_touched s \<le> p_changed s"
proof (induction rule: reachable_by.induct)
  case (created field parent' defaultValue')
  show ?case by (simp add: new_FieldCtrl_def)
next
  case (returned s x)
  then show ?case by (simp add: exec_keeps_order)
next
  case (awaited s x)
  then show ?case by (simp add: exec_keeps_order)
qed

theorem C3_changed_ge_touched_witness:
  "reachable_by keeps_order counters_example
   \<and> p_touched counters_example \<le> p_changed counters_example"
proof -
  let ?s0 = "new_FieldCtrl ''a'' None (JNumber 2)"
  let ?s1 = "fst (exec (SetValue (JNumber 5)) ?s0)"
  let ?s2 = "fst (exec (TouchValue (JNumber 7)) ?s1)"
  have r0: "reachable_by keeps_order ?s0" by (rule reachable_by.created)
  have r1: "reachable_by keeps_order ?s1"
    by (rule reachable_by.returned [OF r0]) (simp add: keeps_order_def)
  have r2: "reachable_by keeps_order ?s2"
    by (rule reachable_by.returned [OF r1]) (simp add: keeps_order_def)
  have "keeps_order (SetTouched 2) ?s2"
    by (simp add: keeps_order_def new_FieldCtrl_def)
  then have r3: "reachable_by keeps_order counters_example"
    unfolding counters_example_def by (rule reachable_by.returned [OF r2])
  show ?thesis using r3 C3_changed_ge_touched [OF r3] by blast
qed

section \<open>Operations that do nothing\<close>

text \<open>
  Claim C9: when the required-message source and the rule-messages source are both
  absent, \<open>clearValidated()\<close> does nothing: the field is left exactly as it was,
  including its list of messages, its flags and the record of listener calls.
\<close>

theorem C9_clearValidated_noop:
  "p_requiredMessage s = None \<Longrightarrow> p_rulesMessages s = None \<Longrightarrow> clearValidated s = s"
  by (simp add: clearValidated_def)

theorem C9_clearValidated_noop_witness:
  "p_requiredMessage field_with_warning = None \<and> p_rulesMessages field_with_warning = None
   \<and> get_messages field_with_warning = Some [warnMsg]
   \<and> clearValidated field_with_warning = field_with_warning"
proof -
  have a: "p_requiredMessage field_with_warning = None" by code_simp
  have b: "p_rulesMessages field_with_warning = None" by code_simp
  have c: "get_messages field_with_warning = Some [warnMsg]" by code_simp
  show ?thesis using C9_clearValidated_noop [OF a b] a b c by blast
qed

text \<open>
  Claim C10: assigning \<open>errorOverride\<close> (or \<open>warningOverride\<close>) the value it already
  holds leaves the field exactly as it was (no flag changes, no recompute, no listener
  call), and assigning the same value twice in a row gives the same field as assigning it
  once.
\<close>

theorem C10_override_same_value:
  "(p_errorOverride s = x \<longrightarrow> set_errorOverride x s = s)
   \<and> (p_warningOverride s = y \<longrightarrow> set_warningOverride y s = s)
   \<and> set_errorOverride x (set_errorOverride x s) = set_errorOverride x s
   \<and> set_warningOverride y (set_warningOverride y s) = set_warningOverride y s"
proof -
  have a: "set_errorOverride x t = t" if "p_errorOverride t = x" for t
    using that by (simp add: set_errorOverride_def)
  have b: "set_warningOverride y t = t" if "p_warningOverride t = y" for t
    using that by (simp add: set_warningOverride_def)
  have c: "set_errorOverride x (set_errorOverride x s) = set_errorOverride x s"
    by (rule a) simp
  have d: "set_warningOverride y (set_warningOverride y s) = set_warningOverride y s"
    by (rule b) simp
  show ?thesis using a b c d by blast
qed

theorem C10_override_same_value_witness:
  "p_errorOverride field_with_warning = None
   \<and> set_errorOverride None field_with_warning = field_with_warning
   \<and> p_warningOverride (set_warningOverride (Some False) field_with_warning) = Some False
   \<and> set_warningOverride (Some False) (set_warningOverride (Some False) field_with_warning)
       = set_warningOverride (Some False) field_with_warning"
proof -
  have a: "p_errorOverride field_with_warning = None" by code_simp
  have b: "p_warningOverride (set_warningOverride (Some False) field_with_warning) = Some False"
    by simp
  show ?thesis
    using C10_override_same_value [of field_with_warning None "Some False"] a b by blast
qed

section \<open>Overrides pin the flags\<close>

lemma pinned_calls [simp]: "pinned (s\<lparr>calls := c\<rparr>) = pinned s"
  by (simp add: pinned_def)


lemma pinned_notify [simp]: "pinned (notify param prev s) = pinned s"
  by (simp add: notify_state)





lemma pinned_set_listeners [simp]: "pinned (set_listeners param ls s) = pinned s"
  by (simp add: set_listeners_def pinned_def split: FieldListenerParam.splits FieldParam.splits)














section \<open>Which rules run\<close>

lemma result_slot_entry_of [simp]: "result_slot (entry_of view w) = fst w"
  by (simp add: result_slot_def entry_of_def split: maybe_promise.splits)

lemma workList_slots_distinct: "distinct (map fst (workList s v))"
proof -
  have a: "map fst (zip (map Index [0..<length rs]) rs) = map Index [0..<length rs]" for rs :: "FieldValidationRule list"
    by simp
  have b: "distinct (map Index [0..<n])" for n
    by (simp add: distinct_map inj_on_def)
  have c: "Required \<notin> set (map Index [0..<n])" for n
    by auto
  show ?thesis
    using b c by (auto simp: workList_def a simp del: set_map map_map split: option.splits)
qed

lemma parentOptions_rulesMessages [simp]:
  "parentOptions (s\<lparr>p_rulesMessages := x\<rparr>) = parentOptions s"
  by (simp add: parentOptions_def)

lemma requiredRule_rulesMessages [simp]:
  "requiredRule (s\<lparr>p_rulesMessages := x\<rparr>) v = requiredRule s v"
  by (simp add: requiredRule_def getValidationDefault_requiredValidate_def
        getValidationDefault_requiredMessage_def
        cong: option.case_cong FieldRequired.case_cong if_cong)

lemma workList_rulesMessages [simp]: "workList (s\<lparr>p_rulesMessages := x\<rparr>) v = workList s v"
  by (simp add: workList_def)

lemma rulesRun_results:
  assumes "rulesRun e s = Some r" "p_validation s = Some v"
  shows "results r = map (entry_of (params s)) (filter (runs e s v) (workList s v))"
    and "promisified r = list_ex is_later (results r)"
proof -
  let ?s1 = "s\<lparr>p_rulesMessages := Some (rulesMessages s)\<rparr>"
  let ?r0 = "\<lparr>fc = ?s1, promisified = False, needUpdate = False, results = []\<rparr>"
  have r: "r = foldl (validateRule e v) ?r0 (workList s v)"
    using assms by (simp add: rulesRun_def Let_def split: if_splits)
  have so: "slots_only s ?s1" by simp
  have p: "params ?s1 = params s" using so by (rule slots_only_params)
  have q: "runs e ?s1 v = runs e s v" using slots_only_runs [OF so] by (intro ext)
  have f: "results r = results ?r0 @ map (entry_of (params ?s1)) (filter (runs e ?s1 v) (workList s v))
    \<and> promisified r = (promisified ?r0 \<or> list_ex is_later (map (entry_of (params ?s1)) (filter (runs e ?s1 v) (workList s v))))"
    unfolding r using foldl_validateRule [of ?s1 ?r0 e v "workList s v"] by simp
  show "results r = map (entry_of (params s)) (filter (runs e s v) (workList s v))"
    using f by (simp add: p q)
  then show "promisified r = list_ex is_later (results r)"
    using f by (simp add: p q)
qed

lemma executed_eq:
  assumes "p_validation s = Some v"
  shows "executed e s =
           (if holdForSure (holdValidation s) e then []
            else map fst (filter (runs e s v) (workList s v)))"
proof (cases "rulesRun e s")
  case None
  then show ?thesis using assms
    by (simp add: executed_def rulesRun_def Let_def split: if_splits)
next
  case (Some r)
  then have "\<not> holdForSure (holdValidation s) e"
    using assms by (simp add: rulesRun_def split: if_splits)
  then show ?thesis
    using Some rulesRun_results(1) [OF Some assms] by (simp add: executed_def comp_def)
qed

lemma distinct_fst_member:
  "distinct (map fst ws) \<Longrightarrow> (i, x) \<in> set ws \<Longrightarrow> (i, y) \<in> set ws \<Longrightarrow> x = y"
  by (induction ws) (auto simp: rev_image_eqI)

text \<open>
  Claim C5, as it holds: with a validation config present, the check of a rule of the
  work list (the required check, or a rule of the rule array) runs in a call
  \<open>validate(eventType)\<close> if and only if validation is not held for the call and the
  rule's resolved trigger - the rule's own \<open>validateOn\<close>, else the config-level
  \<open>validateOn\<close>, else \<open>validateOn\<close> of the parent entity's validation options, else
  \<open>demand\<close> - equals \<open>eventType\<close>, or \<open>eventType\<close> is \<open>touch\<close> and the trigger is \<open>change\<close>;
  when \<open>eventType\<close> is omitted, it runs unless validation is held altogether or the
  trigger is listed in a list-valued \<open>holdValidation\<close>.
\<close>

theorem C5_rule_selection:
  "p_validation s = Some v \<Longrightarrow> (idx, rule) \<in> set (workList s v) \<Longrightarrow>
     (idx \<in> set (executed eventType s) \<longleftrightarrow>
        \<not> holdForSure (holdValidation s) eventType
        \<and> (case eventType of
              Some e \<Rightarrow> ruleValidateOn s v rule = e \<or> (e = Touch \<and> ruleValidateOn s v rule = Change)
            | None \<Rightarrow> (case holdValidation s of
                         HoldEvents es \<Rightarrow> ruleValidateOn s v rule \<notin> set es
                       | HoldValidation b \<Rightarrow> True)))
   \<and> ruleValidateOn s v rule =
       (case validateOn rule of
          Some e \<Rightarrow> e
        | None \<Rightarrow>
           (case cfg_validateOn v of
              Some e \<Rightarrow> e
            | None \<Rightarrow>
               (case parent s of
                  None \<Rightarrow> Demand
                | Some entity \<Rightarrow>
                   (case validationOptions entity of
                      None \<Rightarrow> Demand
                    | Some vo \<Rightarrow> (case cfg_validateOn vo of None \<Rightarrow> Demand | Some e \<Rightarrow> e)))))"
proof -
  assume v: "p_validation s = Some v" and w: "(idx, rule) \<in> set (workList s v)"
  have m: "idx \<in> fst ` set (filter (runs eventType s v) (workList s v))
             \<longleftrightarrow> runs eventType s v (idx, rule)"
  proof
    assume "idx \<in> fst ` set (filter (runs eventType s v) (workList s v))"
    then obtain rule' where a: "(idx, rule') \<in> set (workList s v)"
        and b: "runs eventType s v (idx, rule')"
      by auto
    have "rule' = rule" using workList_slots_distinct a w by (rule distinct_fst_member)
    then show "runs eventType s v (idx, rule)" using b by simp
  next
    assume "runs eventType s v (idx, rule)"
    then show "idx \<in> fst ` set (filter (runs eventType s v) (workList s v))"
      using w by force
  qed
  have one: "idx \<in> set (executed eventType s) \<longleftrightarrow>
        \<not> holdForSure (holdValidation s) eventType
        \<and> (case eventType of
              Some e \<Rightarrow> ruleValidateOn s v rule = e \<or> (e = Touch \<and> ruleValidateOn s v rule = Change)
            | None \<Rightarrow> (case holdValidation s of
                         HoldEvents es \<Rightarrow> ruleValidateOn s v rule \<notin> set es
                       | HoldValidation b \<Rightarrow> True))"
    using m by (simp add: executed_eq [OF v] runs_def shouldValidate_def)
  have two: "ruleValidateOn s v rule =
       (case validateOn rule of
          Some e \<Rightarrow> e
        | None \<Rightarrow>
           (case cfg_validateOn v of
              Some e \<Rightarrow> e
            | None \<Rightarrow>
               (case parent s of
                  None \<Rightarrow> Demand
                | Some entity \<Rightarrow>
                   (case validationOptions entity of
                      None \<Rightarrow> Demand
                    | Some vo \<Rightarrow> (case cfg_validateOn vo of None \<Rightarrow> Demand | Some e \<Rightarrow> e)))))"
    by (simp add: ruleValidateOn_def getValidationDefault_validateOn_def parentOptions_def
          VALIDATION_DEFAULTS_validateOn_def split: option.splits)
  show ?thesis using one two by blast
qed

text \<open>
  Claim C5, as stated, fails: in a field whose parent entity has validation options with
  \<open>validateOn: 'change'\<close>, a rule with no trigger of its own under a config with none
  runs in \<open>validate('change')\<close>, although its trigger resolved as the claim says is
  \<open>demand\<close>.
\<close>

theorem C5_counterexample:
  "p_validation field_of_entity = Some plain_validation
   \<and> (Index 0, plain_rule) \<in> set (workList field_of_entity plain_validation)
   \<and> Index 0 \<in> set (executed (Some Change) field_of_entity)
   \<and> spec_resolvedTrigger plain_validation plain_rule = Demand
   \<and> \<not> (spec_resolvedTrigger plain_validation plain_rule = Change
         \<or> (Change = Touch \<and> spec_resolvedTrigger plain_validation plain_rule = Change))"
proof -
  have a: "p_validation field_of_entity = Some plain_validation"
    by (simp add: field_of_entity_def set_validation_def clearValidated_def new_FieldCtrl_def)
  have b: "workList field_of_entity plain_validation = [(Index 0, plain_rule)]"
    by (simp add: workList_def requiredRule_def plain_validation_def empty_validation_def)
  have c: "holdValidation field_of_entity = HoldValidation False"
    by (simp add: field_of_entity_def set_validation_def clearValidated_def new_FieldCtrl_def)
  have d: "ruleValidateOn field_of_entity plain_validation plain_rule = Change"
    by (simp add: ruleValidateOn_def getValidationDefault_validateOn_def parentOptions_def
          plain_rule_def plain_validation_def empty_validation_def
          field_of_entity_def set_validation_def clearValidated_def new_FieldCtrl_def)
  have e: "Index 0 \<in> set (executed (Some Change) field_of_entity)"
    by (simp add: executed_eq [OF a] b c d holdForSure_def runs_def shouldValidate_def)
  have f: "spec_resolvedTrigger plain_validation plain_rule = Demand"
    by (simp add: spec_resolvedTrigger_def plain_rule_def plain_validation_def empty_validation_def)
  show ?thesis using a b e f by simp
qed

theorem C5_rule_selection_witness:
  "p_validation field_of_entity = Some plain_validation
   \<and> (Index 0, plain_rule) \<in> set (workList field_of_entity plain_validation)
   \<and> Index 0 \<in> set (executed (Some Change) field_of_entity)
   \<and> Index 0 \<in> set (executed (Some Touch) field_of_entity)
   \<and> Index 0 \<notin> set (executed (Some Demand) field_of_entity)
   \<and> Index 0 \<in> set (executed None field_of_entity)"
proof -
  have a: "p_validation field_of_entity = Some plain_validation"
    by (simp add: field_of_entity_def set_validation_def clearValidated_def new_FieldCtrl_def)
  have b: "(Index 0, plain_rule) \<in> set (workList field_of_entity plain_validation)"
    by (simp add: workList_def requiredRule_def plain_validation_def empty_validation_def)
  have c: "holdValidation field_of_entity = HoldValidation False"
    by (simp add: field_of_entity_def set_validation_def clearValidated_def new_FieldCtrl_def)
  have d: "ruleValidateOn field_of_entity plain_validation plain_rule = Change"
    by (simp add: ruleValidateOn_def getValidationDefault_validateOn_def parentOptions_def
          plain_rule_def plain_validation_def empty_validation_def
          field_of_entity_def set_validation_def clearValidated_def new_FieldCtrl_def)
  show ?thesis
    using a b C5_rule_selection [OF a b, of "Some Change"] C5_rule_selection [OF a b, of "Some Touch"]
      C5_rule_selection [OF a b, of "Some Demand"] C5_rule_selection [OF a b, of None]
    by (simp add: c d holdForSure_def)
qed

section \<open>Checks that throw or reject\<close>



lemma rulesMessages_update [simp]: "rulesMessages (s\<lparr>p_rulesMessages := Some a\<rparr>) = a"
  by (simp add: rulesMessages_def)

lemma rulesMessages_required [simp]: "rulesMessages (s\<lparr>p_requiredMessage := m\<rparr>) = rulesMessages s"
  by (simp add: rulesMessages_def)













lemma updateMessages_slot [simp]:
  "slot_message (updateMessages None skip s) idx = slot_message s idx"
  by (simp add: updateMessages_state composeMessages_full slot_message_def rulesMessages_def
        split: slot.splits)



section \<open>Messages and flags after asynchronous checks\<close>

lemma settled_validate: "settled (exec (Validate e) s) = snd (validate_await e s)"
  by (cases "validate_fc e s"; cases "fst (validate_fc e s)")
     (simp_all add: settled_def validate_await_def pending_of_def)

lemma reachable_returned: "reachable s \<Longrightarrow> reachable (fst (exec x s))"
  unfolding reachable_def by (rule reachable_by.returned) simp_all

lemma reachable_awaited: "reachable s \<Longrightarrow> reachable (settled (exec x s))"
  unfolding reachable_def by (rule reachable_by.awaited) simp_all

lemma reachable_created: "reachable (new_FieldCtrl field parent' defaultValue')"
  unfolding reachable_def by (rule reachable_by.created)

lemma reachable_field_async_awaited: "reachable field_async_awaited"
proof -
  have "reachable (fst (exec (SetValidation (Some (empty_validation\<lparr>rules := Some [async_rule]\<rparr>)))
                     (new_FieldCtrl ''a'' None (JNumber 2))))"
    by (rule reachable_returned [OF reachable_created])
  then have "reachable field_async" by (simp add: field_async_def)
  then have "reachable (settled (exec (Validate None) field_async))"
    by (rule reachable_awaited)
  then show ?thesis unfolding settled_validate field_async_awaited_def .
qed

text \<open>
  Claim C2 fails on the code: after \<open>await fc.validate()\<close> on a field whose only rule has
  a check that returns a promise fulfilled with \<open>false\<close>, the slot of the rule holds the
  failure message, but \<open>messages\<close> is still \<open>null\<close>: \<open>_validate\<close> reads \<open>needUpdate\<close> when
  it returns, before the promise has settled, and so never calls \<open>_updateMessages\<close>.
\<close>

theorem C2_messages_not_recomposed:
  "reachable field_async_awaited
   \<and> fst (validate_await None field_async) = False
   \<and> p_requiredMessage field_async_awaited = None
   \<and> p_rulesMessages field_async_awaited = Some [Some errMsg]
   \<and> p_customMessages field_async_awaited = None
   \<and> sources field_async_awaited = [errMsg]
   \<and> get_messages field_async_awaited = None"
proof -
  have a: "fst (validate_await None field_async) = False" by code_simp
  have b: "p_requiredMessage field_async_awaited = None" by code_simp
  have c: "p_rulesMessages field_async_awaited = Some [Some errMsg]" by code_simp
  have d: "p_customMessages field_async_awaited = None" by code_simp
  have e: "sources field_async_awaited = [errMsg]" by code_simp
  have f: "get_messages field_async_awaited = None" by code_simp
  show ?thesis using reachable_field_async_awaited a b c d e f by blast
qed

text \<open>
  Claim C1 fails on the code, by the same defect: in that field \<open>errorOverride\<close> is unset
  and \<open>error\<close> is \<open>false\<close> although the rule's stored message has kind \<open>error\<close>; and after
  \<open>errorOverride = false\<close> followed by \<open>errorOverride = null\<close>, \<open>error\<close> is \<open>true\<close>
  although \<open>messages\<close> is \<open>null\<close>.
\<close>

theorem C1_error_flag_not_derived:
  "reachable field_async_awaited
   \<and> p_errorOverride field_async_awaited = None
   \<and> p_error field_async_awaited = False
   \<and> has_kind TError (sources field_async_awaited)
   \<and> reachable field_async_unpinned
   \<and> p_errorOverride field_async_unpinned = None
   \<and> p_error field_async_unpinned = True
   \<and> get_messages field_async_unpinned = None"
proof -
  have a: "p_errorOverride field_async_awaited = None" by code_simp
  have b: "p_error field_async_awaited = False" by code_simp
  have c: "has_kind TError (sources field_async_awaited)" by code_simp
  have "reachable (fst (exec (SetErrorOverride None)
                     (fst (exec (SetErrorOverride (Some False)) field_async_awaited))))"
    by (intro reachable_returned reachable_field_async_awaited)
  then have d: "reachable field_async_unpinned" by (simp add: field_async_unpinned_def)
  have e: "p_errorOverride field_async_unpinned = None" by code_simp
  have f: "p_error field_async_unpinned = True" by code_simp
  have g: "get_messages field_async_unpinned = None" by code_simp
  show ?thesis using reachable_field_async_awaited a b c d e f g by blast
qed

subsection \<open>The law on synchronous paths\<close>

lemma sources_cong:
  "p_requiredMessage t = p_requiredMessage s \<Longrightarrow> p_rulesMessages t = p_rulesMessages s \<Longrightarrow>
   p_customMessages t = p_customMessages s \<Longrightarrow> sources t = sources s"
  by (simp add: sources_def)

lemma sources_update [simp]:
  "sources (s\<lparr>p_error := e\<rparr>) = sources s"
  "sources (s\<lparr>p_warning := w\<rparr>) = sources s"
  "sources (s\<lparr>p_errorOverride := eo\<rparr>) = sources s"
  "sources (s\<lparr>p_warningOverride := wo\<rparr>) = sources s"
  "sources (s\<lparr>p_messages := m\<rparr>) = sources s"
  "sources (s\<lparr>allocated := n\<rparr>) = sources s"
  "sources (s\<lparr>calls := c\<rparr>) = sources s"
  "sources (s\<lparr>p_validation := v\<rparr>) = sources s"
  by (simp_all add: sources_def)

lemma coherent_cong:
  "p_messages t = p_messages s \<Longrightarrow> p_requiredMessage t = p_requiredMessage s \<Longrightarrow>
   p_rulesMessages t = p_rulesMessages s \<Longrightarrow> p_customMessages t = p_customMessages s \<Longrightarrow>
   p_error t = p_error s \<Longrightarrow> p_warning t = p_warning s \<Longrightarrow>
   p_errorOverride t = p_errorOverride s \<Longrightarrow> p_warningOverride t = p_warningOverride s \<Longrightarrow>
   coherent t = coherent s"
  by (simp add: coherent_def get_messages_def sources_cong [of t s])

lemma coherent_calls [simp]: "coherent (s\<lparr>calls := c\<rparr>) = coherent s"
  by (rule coherent_cong) simp_all

lemma coherent_notify [simp]: "coherent (notify param prev s) = coherent s"
  by (simp add: notify_state)

lemma coherent_full: "coherent (updateMessages None skip s)"
proof -
  let ?t = "composeMessages None s"
  have src: "sources ?t = sources s"
    by (rule sources_cong) (simp_all add: composeMessages_full)
  have msg: "get_messages ?t = (if sources s = [] then None else Some (sources s))"
    by (simp add: composeMessages_full get_messages_def composed_def)
  have err: "p_errorOverride ?t = p_errorOverride s"
    "p_error ?t = (case p_errorOverride s of Some b \<Rightarrow> b | None \<Rightarrow> has_kind TError (sources s))"
    by (simp_all add: composeMessages_full)
  have war: "p_warningOverride ?t = p_warningOverride s"
    "p_warning ?t = (case p_warningOverride s of Some b \<Rightarrow> b | None \<Rightarrow> has_kind TWarning (sources s))"
    by (simp_all add: composeMessages_full)
  have "coherent ?t"
    unfolding coherent_def flag_law_def src msg err war by simp
  then show ?thesis by (simp add: updateMessages_state)
qed

lemma coherent_set_listeners [simp]: "coherent (set_listeners param ls s) = coherent s"
  by (rule coherent_cong)
     (simp_all add: set_listeners_def split: FieldListenerParam.splits FieldParam.splits)

lemma processPassed_flag_fields:
  "fst (snd (processPassed rule idx passed (nu, s)))
   \<or> (p_requiredMessage (snd (snd (processPassed rule idx passed (nu, s)))) = p_requiredMessage s
       \<and> p_rulesMessages (snd (snd (processPassed rule idx passed (nu, s)))) = p_rulesMessages s
       \<and> \<not> nu)"
  by (simp add: processPassed_def Let_def split: option.splits slot.splits)

lemma slots_only_same:
  "slots_only s t \<Longrightarrow> p_requiredMessage t = p_requiredMessage s \<Longrightarrow>
   p_rulesMessages t = p_rulesMessages s \<Longrightarrow> t = s"
proof -
  assume a: "slots_only s t" and b: "p_requiredMessage t = p_requiredMessage s"
    and c: "p_rulesMessages t = p_rulesMessages s"
  have "t = s\<lparr>p_requiredMessage := p_requiredMessage t, p_rulesMessages := p_rulesMessages t\<rparr>"
    using a by (simp only: slots_only_def)
  also have "\<dots> = s" unfolding b c by simp
  finally show ?thesis .
qed

lemma processPassed_flag:
  "\<not> fst (snd (processPassed rule idx passed (nu, s))) \<Longrightarrow>
   snd (snd (processPassed rule idx passed (nu, s))) = s \<and> \<not> nu"
  using processPassed_flag_fields [of rule idx passed nu s]
    processPassed_slots [of "(nu, s)" rule idx passed]
  by (auto intro: slots_only_same)

lemma validateRule_flag:
  "\<not> needUpdate (validateRule e v r w) \<Longrightarrow> fc (validateRule e v r w) = fc r \<and> \<not> needUpdate r"
proof (cases "runs e (fc r) v w")
  case False
  then show "\<not> needUpdate (validateRule e v r w) \<Longrightarrow> ?thesis" by (simp add: validateRule_step)
next
  case True
  assume a: "\<not> needUpdate (validateRule e v r w)"
  show ?thesis
  proof (cases "runCheck (snd w) (params (fc r))")
    case (A_promise p)
    then show ?thesis using a True by (simp add: validateRule_step)
  next
    case (Plain_bool b)
    have "\<not> fst (snd (processPassed (snd w) (fst w) b (needUpdate r, fc r)))"
      using a True Plain_bool by (simp add: validateRule_step)
    then have "snd (snd (processPassed (snd w) (fst w) b (needUpdate r, fc r))) = fc r \<and> \<not> needUpdate r"
      by (rule processPassed_flag)
    then have n: "\<not> needUpdate r"
      and k: "snd (snd (processPassed (snd w) (fst w) b (needUpdate r, fc r))) = fc r"
      by blast+
    have "fc (validateRule e v r w) = snd (snd (processPassed (snd w) (fst w) b (needUpdate r, fc r)))"
      using True Plain_bool by (simp add: validateRule_step)
    then show ?thesis using n k by simp
  qed
qed

lemma validateRule_needUpdate: "needUpdate r \<Longrightarrow> needUpdate (validateRule e v r w)"
  using validateRule_flag [of e v r w] by blast

lemma foldl_validateRule_needUpdate:
  "needUpdate r \<Longrightarrow> needUpdate (foldl (validateRule e v) r ws)"
proof (induction ws arbitrary: r)
  case Nil
  then show ?case by simp
next
  case (Cons w ws)
  have "needUpdate (validateRule e v r w)" using Cons.prems by (rule validateRule_needUpdate)
  then have "needUpdate (foldl (validateRule e v) (validateRule e v r w) ws)" by (rule Cons.IH)
  then show ?case by simp
qed

lemma foldl_validateRule_flag:
  "\<not> needUpdate (foldl (validateRule e v) r ws) \<Longrightarrow> fc (foldl (validateRule e v) r ws) = fc r"
proof (induction ws arbitrary: r)
  case Nil
  show ?case by simp
next
  case (Cons w ws)
  have n: "\<not> needUpdate (foldl (validateRule e v) (validateRule e v r w) ws)"
    using Cons.prems by simp
  have a: "fc (foldl (validateRule e v) (validateRule e v r w) ws) = fc (validateRule e v r w)"
    using n by (rule Cons.IH)
  have "\<not> needUpdate (validateRule e v r w)"
    using n foldl_validateRule_needUpdate by blast
  then have "fc (validateRule e v r w) = fc r"
    using validateRule_flag by blast
  then show ?case using a by simp
qed

lemma coherent_rulesMessages:
  "coherent (s\<lparr>p_rulesMessages := Some (rulesMessages s)\<rparr>) = coherent s"
proof -
  have "sources (s\<lparr>p_rulesMessages := Some (rulesMessages s)\<rparr>) = sources s"
    by (simp add: sources_def rulesMessages_def List.map_filter_simps split: option.splits)
  then show ?thesis by (simp add: coherent_def get_messages_def)
qed

lemma coherent_p_validate:
  assumes "coherent s" "fst (p_validate e skip s) = Sync b"
  shows "coherent (snd (p_validate e skip s))"
proof (cases "rulesRun e s")
  case None
  then show ?thesis using assms by (simp add: p_validate_def)
next
  case (Some r)
  have np: "\<not> promisified r" using assms(2) Some by (simp add: p_validate_def split: if_splits)
  show ?thesis
  proof (cases "needUpdate r")
    case True
    then show ?thesis using Some np by (simp add: p_validate_def coherent_full)
  next
    case False
    obtain v where r: "r = foldl (validateRule e v)
                 \<lparr>fc = s\<lparr>p_rulesMessages := Some (rulesMessages s)\<rparr>, promisified = False,
                  needUpdate = False, results = []\<rparr>
                 (workList (s\<lparr>p_rulesMessages := Some (rulesMessages s)\<rparr>) v)"
      using Some by (auto simp: rulesRun_def Let_def split: option.splits if_splits)
    have "fc r = fc \<lparr>fc = s\<lparr>p_rulesMessages := Some (rulesMessages s)\<rparr>, promisified = False,
                  needUpdate = False, results = []\<rparr>"
      using False unfolding r by (rule foldl_validateRule_flag)
    then have "fc r = s\<lparr>p_rulesMessages := Some (rulesMessages s)\<rparr>" by simp
    moreover have "snd (p_validate e skip s) = fc r"
      using Some np False by (simp add: p_validate_def)
    ultimately have "coherent (snd (p_validate e skip s)) = coherent s"
      by (simp add: coherent_rulesMessages)
    then show ?thesis using assms(1) by simp
  qed
qed

lemma pending_none: "pending_of out = None \<longleftrightarrow> (\<exists>b. out = Sync b)"
  by (cases out) (simp_all add: pending_of_def)

lemma coherent_set_value:
  assumes "coherent s" "snd (set_value v s) = None"
  shows "coherent (fst (set_value v s))"
proof -
  let ?t = "s\<lparr>p_value := v, p_changed := p_changed s + 1\<rparr>"
  have "coherent ?t = coherent s" by (rule coherent_cong) simp_all
  then have a: "coherent ?t" using assms(1) by simp
  obtain b where "fst (p_validate (Some Change) True ?t) = Sync b"
    using assms(2) by (auto simp: set_value_def Let_def pending_none)
  then have "coherent (snd (p_validate (Some Change) True ?t))"
    using a coherent_p_validate by blast
  then show ?thesis by (simp add: set_value_def Let_def)
qed

lemma coherent_touch:
  assumes "coherent s" "snd (touch v s) = None"
  shows "coherent (fst (touch v s))"
proof -
  let ?t = "s\<lparr>p_value := v, p_touched := p_touched s + 1, p_changed := p_changed s + 1\<rparr>"
  have "coherent ?t = coherent s" by (rule coherent_cong) simp_all
  then have a: "coherent ?t" using assms(1) by simp
  obtain b where "fst (p_validate (Some Touch) True ?t) = Sync b"
    using assms(2) by (auto simp: touch_def Let_def pending_none)
  then have "coherent (snd (p_validate (Some Touch) True ?t))"
    using a coherent_p_validate by blast
  then show ?thesis by (simp add: touch_def Let_def)
qed

lemma coherent_set_errorOverride:
  assumes "coherent s"
  shows "coherent (set_errorOverride x s)"
proof (cases x)
  case None
  let ?t = "s\<lparr>p_errorOverride := None\<rparr>"
  have "coherent (?t\<lparr>p_error := has_kind TError (sources ?t)\<rparr>)"
    using assms by (simp add: coherent_def get_messages_def flag_law_def)
  then show ?thesis
    using None assms
    by (simp add: set_errorOverride_def updateMessages_state composeMessages_onlyError)
next
  case (Some b)
  let ?t = "s\<lparr>p_errorOverride := Some b, p_error := b\<rparr>"
  have "coherent ?t"
    using assms by (simp add: coherent_def get_messages_def flag_law_def)
  then show ?thesis using Some assms by (simp add: set_errorOverride_def)
qed

lemma coherent_set_warningOverride:
  assumes "coherent s"
  shows "coherent (set_warningOverride x s)"
proof (cases x)
  case None
  let ?t = "s\<lparr>p_warningOverride := None\<rparr>"
  have "coherent (?t\<lparr>p_warning := has_kind TWarning (sources ?t)\<rparr>)"
    using assms by (simp add: coherent_def get_messages_def flag_law_def)
  then show ?thesis
    using None assms
    by (simp add: set_warningOverride_def updateMessages_state composeMessages_onlyWarning)
next
  case (Some b)
  let ?t = "s\<lparr>p_warningOverride := Some b, p_warning := b\<rparr>"
  have "coherent ?t"
    using assms by (simp add: coherent_def get_messages_def flag_law_def)
  then show ?thesis using Some assms by (simp add: set_warningOverride_def)
qed

lemma coherent_clearValidated: "coherent s \<Longrightarrow> coherent (clearValidated s)"
  by (simp add: clearValidated_def coherent_full)

lemma coherent_set_validation: "coherent s \<Longrightarrow> coherent (set_validation v s)"
proof -
  assume c: "coherent s"
  have "coherent (s\<lparr>p_validation := v\<rparr>) = coherent s" by (rule coherent_cong) simp_all
  then have "coherent (s\<lparr>p_validation := v\<rparr>)" using c by simp
  then show ?thesis unfolding set_validation_def by (rule coherent_clearValidated)
qed

lemma coherent_validation [simp]: "coherent (s\<lparr>p_validation := v\<rparr>) = coherent s"
  by (rule coherent_cong) simp_all

lemma coherent_set_required: "coherent s \<Longrightarrow> coherent (set_required r s)"
  by (simp add: set_required_def Let_def coherent_full)

lemma coherent_exec: "coherent s \<Longrightarrow> synchronous x s \<Longrightarrow> coherent (fst (exec x s))"
proof (cases x)
  case (SetValue v)
  then show "coherent s \<Longrightarrow> synchronous x s \<Longrightarrow> ?thesis"
    by (simp add: synchronous_def coherent_set_value)
next
  case (TouchValue v)
  then show "coherent s \<Longrightarrow> synchronous x s \<Longrightarrow> ?thesis"
    by (simp add: synchronous_def coherent_touch)
next
  case (SetErrorOverride y)
  then show "coherent s \<Longrightarrow> synchronous x s \<Longrightarrow> ?thesis" by (simp add: coherent_set_errorOverride)
next
  case (SetWarningOverride y)
  then show "coherent s \<Longrightarrow> synchronous x s \<Longrightarrow> ?thesis" by (simp add: coherent_set_warningOverride)
next
  case (SetRequired r)
  then show "coherent s \<Longrightarrow> synchronous x s \<Longrightarrow> ?thesis" by (simp add: coherent_set_required)
next
  case (SetValidation v)
  then show "coherent s \<Longrightarrow> synchronous x s \<Longrightarrow> ?thesis" by (simp add: coherent_set_validation)
next
  case (Validate e)
  assume c: "coherent s" and "synchronous x s"
  then obtain b where "fst (p_validate e False s) = Sync b"
    using Validate by (auto simp: synchronous_def validate_fc_def pending_none)
  then show ?thesis using c Validate by (simp add: validate_fc_def coherent_p_validate)
next
  case (SetParentOptions vo)
  have "coherent (s\<lparr>parent := p\<rparr>) = coherent s" for p by (rule coherent_cong) simp_all
  then show "coherent s \<Longrightarrow> synchronous x s \<Longrightarrow> ?thesis"
    using SetParentOptions by (simp split: option.splits)
next
  case (SetTouched t)
  have "coherent (s\<lparr>p_touched := t\<rparr>) = coherent s" by (rule coherent_cong) simp_all
  then show "coherent s \<Longrightarrow> synchronous x s \<Longrightarrow> ?thesis"
    using SetTouched by (simp add: set_touched_def)
next
  case (SetChanged c)
  have "coherent (s\<lparr>p_changed := c\<rparr>) = coherent s" by (rule coherent_cong) simp_all
  then show "coherent s \<Longrightarrow> synchronous x s \<Longrightarrow> ?thesis"
    using SetChanged by (simp add: set_changed_def)
next
  case (SetDefaultValue v)
  have "coherent (s\<lparr>defaultValue := v\<rparr>) = coherent s" by (rule coherent_cong) simp_all
  then show "coherent s \<Longrightarrow> synchronous x s \<Longrightarrow> ?thesis" using SetDefaultValue by simp
next
  case (SetHoldValidation h)
  have "coherent (s\<lparr>holdValidation := h\<rparr>) = coherent s" by (rule coherent_cong) simp_all
  then show "coherent s \<Longrightarrow> synchronous x s \<Longrightarrow> ?thesis" using SetHoldValidation by simp
next
  case (SetHoldListeners h)
  have "coherent (s\<lparr>holdListeners := h\<rparr>) = coherent s" by (rule coherent_cong) simp_all
  then show "coherent s \<Longrightarrow> synchronous x s \<Longrightarrow> ?thesis" using SetHoldListeners by simp
qed (simp_all add: set_customMessages_def coherent_full addListener_def removeListener_def
       Let_def coherent_clearValidated clear_def reset_def split: listeners.splits)

text \<open>
  In every state that a field reaches by operations that leave no validation pending,
  the law of claims C1 and C2 holds.
\<close>

lemma coherent_synchronous: "reachable_by synchronous s \<Longrightarrow> coherent s"
proof (induction rule: reachable_by.induct)
  case (created field parent' defaultValue')
  have "sources (new_FieldCtrl field parent' defaultValue') = []"
    by (simp add: sources_def new_FieldCtrl_def)
  then show ?case
    by (simp add: coherent_def get_messages_def flag_law_def has_kind_def new_FieldCtrl_def)
next
  case (returned s x)
  then show ?case by (simp add: coherent_exec)
next
  case (awaited s x)
  then have "settled (exec x s) = fst (exec x s)"
    by (simp add: synchronous_def settled_def)
  then show ?case using awaited by (simp add: coherent_exec)
qed

section \<open>The copy returned by the getter \<open>validation\<close>\<close>

lemma copyRules_grows: "\<exists>ext. snd (copyRules h rs) = h @ ext"
proof (induction rs arbitrary: h)
  case Nil
  show ?case by simp
next
  case (Cons r rs)
  let ?rule = "case lookup h r of Some (RuleObject x) \<Rightarrow> x | _ \<Rightarrow> empty_rule"
  obtain ext where "snd (copyRules (h @ [RuleObject ?rule]) rs) = (h @ [RuleObject ?rule]) @ ext"
    using Cons.IH by blast
  then show ?case by (simp add: Let_def alloc_def)
qed

lemma cloneValidation_grows: "\<exists>ext. snd (cloneValidation h v) = h @ ext"
proof (cases v)
  case None
  then show ?thesis by (simp add: cloneValidation_def)
next
  case (Some a)
  let ?vo = "case lookup h a of
               Some (ValidationObject x) \<Rightarrow> x
             | _ \<Rightarrow> \<lparr>cfg_validateOn = None, requiredValidate = None,
                      requiredMessage = None, rules_ref = None, required_ref = None\<rparr>"
  show ?thesis
  proof (cases "rules_ref ?vo")
    case None
    then show ?thesis using Some by (simp add: cloneValidation_def Let_def alloc_def)
  next
    case (Some arr)
    let ?rs = "case lookup h arr of Some (ArrayObject x) \<Rightarrow> x | _ \<Rightarrow> []"
    obtain ext where "snd (copyRules h ?rs) = h @ ext" using copyRules_grows by blast
    then show ?thesis
      using \<open>v = Some a\<close> Some by (simp add: cloneValidation_def Let_def alloc_def)
  qed
qed

lemma lookup_append: "r < length h \<Longrightarrow> lookup (h @ ext) r = lookup h r"
  by (simp add: lookup_def nth_append)

lemma lookup_mutate: "a \<noteq> r \<Longrightarrow> lookup (mutate a x h) r = lookup h r"
  by (simp add: lookup_def mutate_def)

lemma resolve_cong:
  assumes "\<forall>r\<in>set (config_refs h v). lookup h' r = lookup h r"
  shows "resolve h' v = resolve h v"
proof (cases v)
  case None
  then show ?thesis by (simp add: resolve_def)
next
  case (Some a)
  have la: "lookup h' a = lookup h a" using assms Some by (simp add: config_refs_def)
  show ?thesis
  proof (cases "lookup h a")
    case None
    then show ?thesis using Some la by (simp add: resolve_def)
  next
    case (Some obj)
    show ?thesis
    proof (cases obj)
      case (ValidationObject vo)
      have refs: "config_refs h v =
          a # (case rules_ref vo of
                      None \<Rightarrow> []
                    | Some arr \<Rightarrow>
                        arr # (case lookup h arr of Some (ArrayObject rs) \<Rightarrow> rs | _ \<Rightarrow> []))
                   @ (case required_ref vo of Some (RefRule r) \<Rightarrow> [r] | _ \<Rightarrow> [])"
        using \<open>v = Some a\<close> Some ValidationObject by (simp add: config_refs_def)
      have rules_eq: "(case rules_ref vo of
                                 None \<Rightarrow> None
                               | Some arr \<Rightarrow>
                                   (case lookup h' arr of
                                      Some (ArrayObject rs) \<Rightarrow> Some (map (resolve_rule h') rs)
                                    | _ \<Rightarrow> None))
          = (case rules_ref vo of
                                 None \<Rightarrow> None
                               | Some arr \<Rightarrow>
                                   (case lookup h arr of
                                      Some (ArrayObject rs) \<Rightarrow> Some (map (resolve_rule h) rs)
                                    | _ \<Rightarrow> None))"
      proof (cases "rules_ref vo")
        case None
        then show ?thesis by simp
      next
        case (Some arr)
        have l: "lookup h' arr = lookup h arr" using assms refs Some by simp
        show ?thesis
        proof (cases "lookup h arr")
          case None
          then show ?thesis using Some l by simp
        next
          case (Some o2)
          show ?thesis
          proof (cases o2)
            case (ArrayObject rs)
            have "\<forall>r\<in>set rs. lookup h' r = lookup h r"
              using assms refs \<open>rules_ref vo = Some arr\<close> \<open>lookup h arr = Some o2\<close> ArrayObject
              by simp
            then have "map (resolve_rule h') rs = map (resolve_rule h) rs"
              by (simp add: resolve_rule_def)
            then show ?thesis
              using \<open>rules_ref vo = Some arr\<close> \<open>lookup h arr = Some o2\<close> ArrayObject l by simp
          qed (use \<open>rules_ref vo = Some arr\<close> \<open>lookup h arr = Some o2\<close> l in simp_all)
        qed
      qed
      have req_eq: "(case required_ref vo of
                                    None \<Rightarrow> None
                                  | Some (RefBool b) \<Rightarrow> Some (ReqBool b)
                                  | Some (RefString str) \<Rightarrow> Some (ReqString str)
                                  | Some (RefRule r) \<Rightarrow> Some (ReqRule r (resolve_rule h' r)))
          = (case required_ref vo of
                                    None \<Rightarrow> None
                                  | Some (RefBool b) \<Rightarrow> Some (ReqBool b)
                                  | Some (RefString str) \<Rightarrow> Some (ReqString str)
                                  | Some (RefRule r) \<Rightarrow> Some (ReqRule r (resolve_rule h r)))"
      proof (cases "required_ref vo")
        case None
        then show ?thesis by simp
      next
        case (Some rr)
        show ?thesis
        proof (cases rr)
          case (RefRule r)
          have "lookup h' r = lookup h r" using assms refs Some RefRule by simp
          then show ?thesis using Some RefRule by (simp add: resolve_rule_def)
        qed (use Some in simp_all)
      qed
      show ?thesis
        using \<open>v = Some a\<close> Some ValidationObject la rules_eq req_eq by (simp add: resolve_def)
    qed (use \<open>v = Some a\<close> Some la in \<open>simp_all add: resolve_def\<close>)
  qed
qed

text \<open>
  What the getter does keep apart: an assignment to any object that the getter has
  created (the copy of the config object, its array of rules, the copies of the rules)
  leaves the field's own config as it was, provided the references of that config are
  references to objects of the store.
\<close>

lemma getter_copies_are_separate:
  assumes "\<forall>r\<in>set (config_refs h v). r < length h" and "length h \<le> a"
  shows "resolve (mutate a x (snd (get_validation h v))) v = resolve h v"
proof -
  obtain ext where e: "snd (get_validation h v) = h @ ext"
    using cloneValidation_grows by (auto simp: get_validation_def)
  have "\<forall>r\<in>set (config_refs h v). lookup (mutate a x (h @ ext)) r = lookup h r"
    using assms by (auto simp: lookup_mutate lookup_append)
  then show ?thesis unfolding e by (rule resolve_cong)
qed

text \<open>
  Claim C8 fails on the code: \<open>_cloneValidation\<close> copies the config object and each rule
  of \<open>rules\<close>, but not the rule object of \<open>required\<close>. The copy returned by the getter (at
  2) refers to the same \<open>required\<close> object (at 0) as the field's own config (at 1); after
  the caller assigns \<open>message\<close> of that object, the field's own config has the new
  message, and \<open>validate()\<close> stores a required message with the new text.
\<close>

theorem C8_required_object_shared:
  "fst (get_validation store_before (Some 1)) = Some 2
   \<and> lookup store_after_get 2
       = Some (ValidationObject \<lparr>cfg_validateOn = None, requiredValidate = None,
                                  requiredMessage = None, rules_ref = None,
                                  required_ref = Some (RefRule 0)\<rparr>)
   \<and> map_option required (resolve store_after_get (Some 1))
       = Some (Some (ReqRule 0 required_rule_object))
   \<and> map_option required (resolve store_after_write (Some 1))
       = Some (Some (ReqRule 0 (required_rule_object\<lparr>message := Some ''changed''\<rparr>)))
   \<and> p_requiredMessage
         (snd (validate_await None (field_with_config (resolve store_after_get (Some 1)))))
       = Some \<lparr>message = Some ''Required'', type = Some TError\<rparr>
   \<and> p_requiredMessage
         (snd (validate_await None (field_with_config (resolve store_after_write (Some 1)))))
       = Some \<lparr>message = Some ''changed'', type = Some TError\<rparr>"
proof -
  have g: "get_validation store_before (Some 1)
             = (Some 2, store_before @ [ValidationObject \<lparr>cfg_validateOn = None,
                  requiredValidate = None, requiredMessage = None, rules_ref = None,
                  required_ref = Some (RefRule 0)\<rparr>])"
    by (simp add: get_validation_def cloneValidation_def lookup_def alloc_def store_before_def
          Let_def numeral_2_eq_2)
  have a: "fst (get_validation store_before (Some 1)) = Some 2" unfolding g by simp
  have b: "lookup store_after_get 2
       = Some (ValidationObject \<lparr>cfg_validateOn = None, requiredValidate = None,
                                  requiredMessage = None, rules_ref = None,
                                  required_ref = Some (RefRule 0)\<rparr>)"
    unfolding store_after_get_def g by (simp add: lookup_def store_before_def)
  have c: "resolve store_after_get (Some 1)
       = Some (empty_validation\<lparr>required := Some (ReqRule 0 required_rule_object)\<rparr>)"
    unfolding store_after_get_def g
    by (simp add: resolve_def resolve_rule_def lookup_def store_before_def empty_validation_def)
  have d: "resolve store_after_write (Some 1)
       = Some (empty_validation\<lparr>required :=
                 Some (ReqRule 0 (required_rule_object\<lparr>message := Some ''changed''\<rparr>))\<rparr>)"
    unfolding store_after_write_def store_after_get_def g
    by (simp add: mutate_def resolve_def resolve_rule_def lookup_def store_before_def
          empty_validation_def)
  have e: "p_requiredMessage
         (snd (validate_await None (field_with_config
            (Some (empty_validation\<lparr>required := Some (ReqRule 0 required_rule_object)\<rparr>)))))
       = Some \<lparr>message = Some ''Required'', type = Some TError\<rparr>"
    by code_simp
  have f: "p_requiredMessage
         (snd (validate_await None (field_with_config
            (Some (empty_validation\<lparr>required :=
                 Some (ReqRule 0 (required_rule_object\<lparr>message := Some ''changed''\<rparr>))\<rparr>)))))
       = Some \<lparr>message = Some ''changed'', type = Some TError\<rparr>"
    by code_simp
  show ?thesis unfolding c d using a b e f by simp
qed

end
